theory Spec2Isabelle
  imports Main
begin

section \<open>Polling manager: the adaptive delay\<close>

text \<open>
  The source keeps three JavaScript Maps keyed by task id and a base interval:
  \<^verbatim>\<open>
  constructor() {
      this.tasks = new Map();
      this.pollingInterval = 30000;
      this.lastUpdateTimes = new Map();
      this.errorCounts = new Map();
  }
  \<close>
  Times are milliseconds since the epoch, as \<open>Date.now()\<close> gives them, modelled as
  \<open>int\<close>; an error count is a \<open>nat\<close>. A Map is a partial function, and a missing key
  (\<open>undefined\<close> in the source) is \<open>None\<close>. The Map \<open>tasks\<close> is never read or written by
  any method of the source and is left out.
\<close>

record PollingManager =
  pollingInterval :: int
  lastUpdateTimes :: "string \<rightharpoonup> int"
  errorCounts :: "string \<rightharpoonup> nat"

definition PollingManager_new :: PollingManager where
  "PollingManager_new =
     \<lparr>pollingInterval = 30000, lastUpdateTimes = Map.empty, errorCounts = Map.empty\<rparr>"

text \<open>
  \<open>this.errorCounts.get(taskId) || 0\<close>: a missing entry and a stored zero both give 0.
\<close>

definition errorCount_or_0 :: "PollingManager \<Rightarrow> string \<Rightarrow> nat" where
  "errorCount_or_0 pm taskId = (case errorCounts pm taskId of None \<Rightarrow> 0 | Some k \<Rightarrow> k)"

text \<open>
  \<open>!lastUpdate\<close> holds for a missing entry and for the stored number 0.
\<close>

definition falsy_time :: "int option \<Rightarrow> bool" where
  "falsy_time t = (case t of None \<Rightarrow> True | Some v \<Rightarrow> v = 0)"

text \<open>
  \<open>getTaskInterval(taskId)\<close>, with the clock reading \<open>Date.now()\<close> as the argument \<open>now\<close>.
  The branches are in the order of the source. \<open>Math.pow(2, errorCount)\<close> is a power of
  two; the source computes it in double precision, where the product with 30000 is exact
  as long as it is finite and is \<open>Infinity\<close> afterwards, so \<open>Math.min\<close> with 900000
  returns the same number as the minimum over the integers below.
\<close>

definition getTaskInterval :: "PollingManager \<Rightarrow> string \<Rightarrow> int \<Rightarrow> int" where
  "getTaskInterval pm taskId now =
     (let lastUpdate = lastUpdateTimes pm taskId;
          errorCount = errorCount_or_0 pm taskId
      in if errorCount > 0 then min (pollingInterval pm * 2 ^ errorCount) 900000
         else if falsy_time lastUpdate then pollingInterval pm
         else let timeSinceUpdate = now - the lastUpdate
              in if timeSinceUpdate < 3600000 then 30000
                 else if timeSinceUpdate < 86400000 then 300000
                 else 900000)"

section \<open>XML manager: fetch and diff\<close>

text \<open>
  Modelled from the spec: \<open>parseXML\<close> is called by the source but its body is not part
  of it, so the shape of the record it returns is taken from the data model of the
  specification: the four scalar fields \<open>status\<close>, \<open>assignee\<close>, \<open>priority\<close> and
  \<open>resolution\<close> with string values, and an ordered list of comments. A scalar field that
  the parsed object does not carry is \<open>undefined\<close> in the source and \<open>None\<close> here; the
  source compares the fields with \<open>!==\<close>, which on strings and \<open>undefined\<close> is
  inequality of values.
\<close>

record taskData =
  status :: "string option"
  assignee :: "string option"
  priority :: "string option"
  resolution :: "string option"
  comments :: "string list"

text \<open>The keys the source iterates over: \<open>['status', 'assignee', 'priority', 'resolution']\<close>.\<close>

datatype field = Status | Assignee | Priority | Resolution

fun field_of :: "field \<Rightarrow> taskData \<Rightarrow> string option" where
  "field_of Status d = status d"
| "field_of Assignee d = assignee d"
| "field_of Priority d = priority d"
| "field_of Resolution d = resolution d"

text \<open>
  The object \<open>details\<close> of the source gets its keys one by one: \<open>isNew\<close> (only ever set to
  \<open>true\<close>; \<open>False\<close> stands for the absent key), one entry \<open>{from, to}\<close> per changed field,
  and \<open>newComments\<close>.
\<close>

record delta =
  d_from :: "string option"
  d_to :: "string option"

record details =
  isNew :: bool
  fieldChanges :: "field \<rightharpoonup> delta"
  newComments :: "string list option"

record changeSet =
  hasChanges :: bool
  details :: details

definition no_details :: details where
  "no_details = \<lparr>isNew = False, fieldChanges = Map.empty, newComments = None\<rparr>"

text \<open>The body of the \<open>forEach\<close> callback of \<open>detectChanges\<close>, for one field.\<close>

definition check_field :: "taskData \<Rightarrow> taskData \<Rightarrow> field \<Rightarrow> changeSet \<Rightarrow> changeSet" where
  "check_field oldData newData f changes =
     (if field_of f oldData \<noteq> field_of f newData
      then changes\<lparr>hasChanges := True,
                   details := (details changes)\<lparr>fieldChanges :=
                     (fieldChanges (details changes))
                       (f \<mapsto> \<lparr>d_from = field_of f oldData, d_to = field_of f newData\<rparr>)\<rparr>\<rparr>
      else changes)"

text \<open>
  \<open>detectChanges(oldData, newData)\<close>. The argument \<open>oldData\<close> is what \<open>cache.get\<close>
  returned: \<open>None\<close> is \<open>undefined\<close>, the only falsy value a cache of parsed objects can
  hold. \<open>slice(n)\<close> is \<open>drop n\<close>.
\<close>

definition detectChanges :: "taskData option \<Rightarrow> taskData \<Rightarrow> changeSet" where
  "detectChanges oldData newData =
     (case oldData of
        None \<Rightarrow> \<lparr>hasChanges = True, details = no_details\<lparr>isNew := True\<rparr>\<rparr>
      | Some old \<Rightarrow>
          (let changes = \<lparr>hasChanges = False, details = no_details\<rparr>;
               changes = fold (check_field old newData) [Status, Assignee, Priority, Resolution] changes
           in if length (comments newData) > length (comments old)
              then changes\<lparr>hasChanges := True,
                           details := (details changes)\<lparr>newComments :=
                             Some (drop (length (comments old)) (comments newData))\<rparr>\<rparr>
              else changes))"

text \<open>
  Exceptions of the source are values: a rejected \<open>fetch\<close>, the \<open>Error\<close> thrown for a
  response that is not \<open>ok\<close>, an exception of \<open>parseXML\<close>, and an exception of one of the
  handlers the task manager calls.
\<close>

datatype error = NetworkError | HttpError nat | ParseError | HandlerError

record response =
  ok :: bool
  http_status :: nat
  text_of :: "error + string"

record XMLManager =
  cache :: "string \<rightharpoonup> taskData"
  failedRequests :: "string \<rightharpoonup> error"

definition XMLManager_new :: XMLManager where
  "XMLManager_new = \<lparr>cache = Map.empty, failedRequests = Map.empty\<rparr>"

text \<open>
  The methods \<open>parseXML\<close>, \<open>convertToXmlUrl\<close> and \<open>handleFetchError\<close> are called by the
  source but not defined in it, and \<open>fetch\<close> is the network. They are parameters of the
  model, collected in one record.
\<close>

record xml_env =
  parseXML :: "string \<Rightarrow> error + taskData"
  convertToXmlUrl :: "string \<Rightarrow> string"
  fetch :: "string \<Rightarrow> error + response"
  handleFetchError :: "string \<Rightarrow> error \<Rightarrow> XMLManager \<Rightarrow> XMLManager"

record result =
  changed :: bool
  changes :: details
  data :: taskData

text \<open>
  \<open>processXMLData(xmlText, taskUrl)\<close>: the cache is written only under
  \<open>if (changes.hasChanges)\<close>. An exception of \<open>parseXML\<close> leaves before the cache is read.
\<close>

definition processXMLData ::
  "xml_env \<Rightarrow> XMLManager \<Rightarrow> string \<Rightarrow> string \<Rightarrow> (error + result) \<times> XMLManager" where
  "processXMLData E xm xmlText taskUrl =
     (case parseXML E xmlText of
        Inl e \<Rightarrow> (Inl e, xm)
      | Inr taskData \<Rightarrow>
          (let previousData = cache xm taskUrl;
               changes = detectChanges previousData taskData;
               xm' = (if hasChanges changes
                      then xm\<lparr>cache := (cache xm)(taskUrl \<mapsto> taskData)\<rparr> else xm)
           in (Inr \<lparr>changed = hasChanges changes, changes = details changes, data = taskData\<rparr>,
               xm')))"

text \<open>
  \<open>fetchTaskXML(taskUrl)\<close>: everything thrown inside the \<open>try\<close> block, also by
  \<open>processXMLData\<close>, goes through \<open>handleFetchError\<close> and is thrown again.
\<close>

definition fetchTaskXML ::
  "xml_env \<Rightarrow> XMLManager \<Rightarrow> string \<Rightarrow> (error + result) \<times> XMLManager" where
  "fetchTaskXML E xm taskUrl =
     (let xmlUrl = convertToXmlUrl E taskUrl
      in case fetch E xmlUrl of
           Inl e \<Rightarrow> (Inl e, handleFetchError E taskUrl e xm)
         | Inr response \<Rightarrow>
             if \<not> ok response
             then (Inl (HttpError (http_status response)),
                   handleFetchError E taskUrl (HttpError (http_status response)) xm)
             else (case text_of response of
                     Inl e \<Rightarrow> (Inl e, handleFetchError E taskUrl e xm)
                   | Inr xmlText \<Rightarrow>
                       (let xm1 = xm\<lparr>failedRequests := (failedRequests xm)(taskUrl := None)\<rparr>
                        in case processXMLData E xm1 xmlText taskUrl of
                             (Inl e, xm2) \<Rightarrow> (Inl e, handleFetchError E taskUrl e xm2)
                           | (Inr r, xm2) \<Rightarrow> (Inr r, xm2))))"

section \<open>Sample data for the XML manager\<close>

text \<open>
  Two parsed records and an instance of the parameters, for evaluating the definitions
  on concrete inputs.
\<close>

definition snap_todo :: taskData where
  "snap_todo = \<lparr>status = Some ''To Do'', assignee = None, priority = None, resolution = None,
                 comments = [''c1'', ''c2'']\<rparr>"

definition snap_progress :: taskData where
  "snap_progress = \<lparr>status = Some ''In Progress'', assignee = None, priority = None,
                     resolution = None, comments = [''c1'', ''c2'', ''c3'', ''c4'', ''c5'']\<rparr>"

definition sample_parseXML :: "string \<Rightarrow> error + taskData" where
  "sample_parseXML xmlText =
     (if xmlText = ''<todo/>'' then Inr snap_todo
      else if xmlText = ''<progress/>'' then Inr snap_progress
      else Inl ParseError)"

definition sample_xml_env :: xml_env where
  "sample_xml_env =
     \<lparr>parseXML = sample_parseXML,
      convertToXmlUrl = (\<lambda>u. u @ ''.xml''),
      fetch = (\<lambda>u. Inl NetworkError),
      handleFetchError = (\<lambda>u e xm. xm\<lparr>failedRequests := (failedRequests xm)(u \<mapsto> e)\<rparr>)\<rparr>"

section \<open>Notification manager: queue, grouping and drain\<close>

text \<open>
  The argument of \<open>addNotification\<close>. The source reads \<open>update.taskKey\<close> and
  \<open>update.changes.type\<close> (which may be \<open>undefined\<close>) and hands the whole object to
  \<open>createTitle\<close> and \<open>createMessage\<close>.
\<close>

record update =
  taskKey :: string
  changes_type :: "string option"

text \<open>
  The object \<open>createNotification\<close> builds. \<open>id\<close> is \<open>Date.now()\<close> and \<open>timestamp\<close> is
  \<open>new Date()\<close>; both are the clock reading in milliseconds, and the difference of two
  timestamps in the source is the difference of these numbers.
\<close>

record notification =
  n_id :: int
  n_taskKey :: string
  title :: string
  message :: string
  n_type :: "string option"
  timestamp :: int
  groupId :: string

record preferences =
  enabled :: bool
  sound :: bool
  grouping :: bool

text \<open>
  The state of the manager. The field \<open>presented\<close> is not in the source: it records, in
  order, the entries handed to \<open>showNotification\<close>, whose body the source does not have.
\<close>

record NotificationManager =
  notificationQueue :: "notification list"
  isProcessing :: bool
  preferences :: preferences
  presented :: "notification list"

definition NotificationManager_new :: NotificationManager where
  "NotificationManager_new =
     \<lparr>notificationQueue = [], isProcessing = False,
      preferences = \<lparr>enabled = True, sound = False, grouping = True\<rparr>,
      presented = []\<rparr>"

text \<open>
  \<open>createTitle\<close>, \<open>createMessage\<close> and \<open>createGroupMessage\<close> are called by the source
  but not defined in it; they are parameters.
\<close>

record notif_env =
  createTitle :: "update \<Rightarrow> string"
  createMessage :: "update \<Rightarrow> string"
  createGroupMessage :: "notification \<Rightarrow> notification \<Rightarrow> string"

definition createNotification :: "notif_env \<Rightarrow> update \<Rightarrow> int \<Rightarrow> notification" where
  "createNotification H update now =
     \<lparr>n_id = now, n_taskKey = taskKey update, title = createTitle H update,
      message = createMessage H update, n_type = changes_type update,
      timestamp = now, groupId = taskKey update\<rparr>"

text \<open>
  The predicate given to \<open>find\<close> in \<open>tryGroupNotification\<close>, for a queued entry \<open>n\<close>.
  The source takes the difference as it is, with no absolute value.
\<close>

definition similar_to :: "notification \<Rightarrow> notification \<Rightarrow> bool" where
  "similar_to notification n =
     (groupId n = groupId notification \<and> timestamp notification - timestamp n < 300000)"

text \<open>
  \<open>Array.prototype.find\<close> returns the first element that satisfies the predicate. The
  element is an object of the queue, and the assignment to its \<open>message\<close> is seen through
  the queue; the model therefore finds the position of that element and updates the
  queue there.
\<close>

fun findIndex :: "('a \<Rightarrow> bool) \<Rightarrow> 'a list \<Rightarrow> nat option" where
  "findIndex P [] = None"
| "findIndex P (x # xs) = (if P x then Some 0 else map_option Suc (findIndex P xs))"

definition tryGroupNotification ::
  "notif_env \<Rightarrow> NotificationManager \<Rightarrow> notification \<Rightarrow> bool \<times> NotificationManager" where
  "tryGroupNotification H nm notification =
     (case findIndex (similar_to notification) (notificationQueue nm) of
        Some i \<Rightarrow>
          (let similar = notificationQueue nm ! i
           in (True, nm\<lparr>notificationQueue := (notificationQueue nm)
                          [i := similar\<lparr>message := createGroupMessage H similar notification\<rparr>]\<rparr>))
      | None \<Rightarrow> (False, nm))"

text \<open>
  \<open>processQueue\<close> is asynchronous. It runs without interruption up to its first \<open>await\<close>:
  the test of the preference, the assignment to \<open>isProcessing\<close>, the test of the loop and,
  for a queue that is not empty, \<open>shift()\<close> and the call of \<open>showNotification\<close>. It is
  resumed after the presentation and the pause of 3000 milliseconds, at the test of the
  loop. \<open>processQueue_loop\<close> is one test of the loop with what follows it up to the next
  suspension or the end of the loop.
\<close>

definition processQueue_loop :: "NotificationManager \<Rightarrow> NotificationManager" where
  "processQueue_loop nm =
     (case notificationQueue nm of
        [] \<Rightarrow> nm\<lparr>isProcessing := False\<rparr>
      | notification # rest \<Rightarrow>
          nm\<lparr>notificationQueue := rest, presented := presented nm @ [notification]\<rparr>)"

definition processQueue :: "NotificationManager \<Rightarrow> NotificationManager" where
  "processQueue nm =
     (if \<not> enabled (preferences nm) then nm
      else processQueue_loop (nm\<lparr>isProcessing := True\<rparr>))"

text \<open>
  The end of \<open>addNotification\<close>, reached when the entry was not merged:
  \<open>this.notificationQueue.push(notification)\<close>, and the call of \<open>processQueue\<close> when no
  drain is running.
\<close>

definition push_and_process :: "NotificationManager \<Rightarrow> notification \<Rightarrow> NotificationManager" where
  "push_and_process nm notification =
     (let nm1 = nm\<lparr>notificationQueue := notificationQueue nm @ [notification]\<rparr>
      in if \<not> isProcessing nm1 then processQueue nm1 else nm1)"

text \<open>\<open>addNotification(update)\<close>, called when the clock reads \<open>now\<close>.\<close>

definition addNotification ::
  "notif_env \<Rightarrow> NotificationManager \<Rightarrow> update \<Rightarrow> int \<Rightarrow> NotificationManager" where
  "addNotification H nm update now =
     (let notification = createNotification H update now
      in if grouping (preferences nm)
         then (case tryGroupNotification H nm notification of
                 (True, nm') \<Rightarrow> nm'
               | (False, nm') \<Rightarrow> push_and_process nm' notification)
         else push_and_process nm notification)"

text \<open>
  What happens to a manager over time: calls of \<open>addNotification\<close>, and resumptions of
  the suspended loop of \<open>processQueue\<close>. A loop is suspended exactly while \<open>isProcessing\<close>
  is set.
\<close>

datatype event = Add update int | Wake

fun step :: "notif_env \<Rightarrow> event \<Rightarrow> NotificationManager \<Rightarrow> NotificationManager" where
  "step H (Add update now) nm = addNotification H nm update now"
| "step H Wake nm = (if isProcessing nm then processQueue_loop nm else nm)"

definition exec :: "notif_env \<Rightarrow> event list \<Rightarrow> NotificationManager \<Rightarrow> NotificationManager" where
  "exec H evs nm = fold (step H) evs nm"

text \<open>
  No two entries of a queue are of one group and within the grouping window: an entry
  that shares the group of an earlier one is at least 300000 milliseconds later.
\<close>

fun window_inv :: "notification list \<Rightarrow> bool" where
  "window_inv [] = True"
| "window_inv (n # ns) =
     ((\<forall>m \<in> set ns. groupId m = groupId n \<longrightarrow> 300000 \<le> timestamp m - timestamp n)
      \<and> window_inv ns)"

section \<open>Sample data for the notification manager\<close>

definition sample_notif_env :: notif_env where
  "sample_notif_env =
     \<lparr>createTitle = (\<lambda>u. ''Update in '' @ taskKey u),
      createMessage = (\<lambda>u. case changes_type u of None \<Rightarrow> ''changed'' | Some t \<Rightarrow> t),
      createGroupMessage = (\<lambda>n m. message n @ ''; '' @ message m)\<rparr>"

definition upd :: "string \<Rightarrow> update" where
  "upd k = \<lparr>taskKey = k, changes_type = Some ''status''\<rparr>"

text \<open>
  \<open>burst n\<close>: updates of \<open>n\<close> different tasks, all at clock reading 0 and with no
  resumption of the drain between them.
\<close>

definition burst :: "nat \<Rightarrow> event list" where
  "burst n = map (\<lambda>k. Add (upd (replicate k (CHR ''x''))) 0) [0..<n]"

definition prefs_no_grouping :: preferences where
  "prefs_no_grouping = \<lparr>enabled = True, sound = False, grouping = False\<rparr>"

definition queued_one :: NotificationManager where
  "queued_one =
     exec sample_notif_env [Add (upd ''JIRA-9'') 0, Add (upd ''JIRA-1'') 1000]
       NotificationManager_new"

definition burst_entry :: "notif_env \<Rightarrow> nat \<Rightarrow> notification" where
  "burst_entry H k = createNotification H (upd (replicate k (CHR ''x''))) 0"

section \<open>Task manager: the monitor loop and the persisted tasks\<close>

text \<open>
  Modelled from the spec: the handlers that write a persisted task after its creation
  (\<open>handleChanges\<close>, \<open>handleError\<close>) are called by the source but not part of it. The
  fields \<open>lastChange\<close>, \<open>snapshot\<close> and \<open>consecutiveErrorCount\<close> are those of the task of
  the specification's data model: the timestamp of the last change, the cached last-known
  record and the consecutive-error counter. The other four fields are those of the object
  that \<open>addTask\<close> creates in the source, \<open>url\<close>, \<open>added\<close>, \<open>lastCheck\<close> and \<open>status\<close>
  (here \<open>task_status\<close>); on that object the three fields of the specification are absent:
  \<open>None\<close>, and 0 for the counter.
\<close>

record task =
  url :: string
  added :: int
  lastCheck :: "int option"
  task_status :: string
  lastChange :: "int option"
  snapshot :: "taskData option"
  consecutiveErrorCount :: nat

text \<open>
  Modelled from the spec: the class \<open>StorageManager\<close> is instantiated by the source but
  not part of it. The specification gives its interface, \<open>loadTasks\<close> returning the mapping
  from task ids to tasks, \<open>saveTask(id, task)\<close> and \<open>deleteTask(id)\<close>, with
  read-your-writes consistency. The store is a list of entries in the order of their
  first insertion, the order in which \<open>Object.entries\<close> lists the keys of the loaded
  object.
\<close>

type_synonym storage = "(string \<times> task) list"

fun saveTask :: "string \<Rightarrow> task \<Rightarrow> storage \<Rightarrow> storage" where
  "saveTask taskId t [] = [(taskId, t)]"
| "saveTask taskId t ((k, v) # rest) =
     (if k = taskId then (k, t) # rest else (k, v) # saveTask taskId t rest)"

definition loadTasks :: "storage \<Rightarrow> (string \<times> task) list" where
  "loadTasks store = store"

definition deleteTask :: "string \<Rightarrow> storage \<Rightarrow> storage" where
  "deleteTask taskId store = filter (\<lambda>(k, v). k \<noteq> taskId) store"

text \<open>
  The state of the task manager: its four components, the Map \<open>activeTasks\<close>, and the
  timers set by \<open>setTimeout(monitor, nextInterval)\<close> that have not fired yet. A timer is
  the closure \<open>monitor\<close>, that is the task id and the task object it was created for,
  with its delay; a call of \<open>monitor()\<close> that has been started and waits for the network
  is a timer of delay 0.
\<close>

record TaskManager =
  pollingManager :: PollingManager
  xmlManager :: XMLManager
  notificationManager :: NotificationManager
  storageManager :: storage
  activeTasks :: "string \<rightharpoonup> task"
  timers :: "(string \<times> task \<times> int) list"

text \<open>
  The constructor, for a store with the given content. (The constructor of the source
  then calls \<open>initialize\<close>, below.)
\<close>

definition TaskManager_new :: "storage \<Rightarrow> TaskManager" where
  "TaskManager_new store =
     \<lparr>pollingManager = PollingManager_new, xmlManager = XMLManager_new,
      notificationManager = NotificationManager_new, storageManager = store,
      activeTasks = Map.empty, timers = []\<rparr>"

text \<open>
  The methods \<open>extractTaskId\<close>, \<open>validateTask\<close> and \<open>handleChanges\<close> are called by the
  source but not defined in it; they are parameters. \<open>validateTask\<close> throws or returns;
  \<open>handleChanges\<close> changes the state and may throw.
\<close>

record tm_env =
  xml :: xml_env
  extractTaskId :: "string \<Rightarrow> string"
  validateTask :: "string \<Rightarrow> error option"
  handleChanges :: "string \<Rightarrow> result \<Rightarrow> int \<Rightarrow> TaskManager \<Rightarrow> error option \<times> TaskManager"

text \<open>
  Modelled from the spec: \<open>handleError(taskId, error)\<close> is called in the \<open>catch\<close> block of
  \<open>monitor\<close> but is not part of the source; the \<open>catch\<close> block does nothing else. The
  specification says of a failing cycle that the orchestrator "increments the error
  counter and persists, then continues the loop". The counter is the entry of the polling
  manager's \<open>errorCounts\<close>; the persisted task gets the new count; the loop continues with
  a timer for the persisted task, after the delay the polling manager gives. A task that
  is no longer in the store has been removed, and nothing is persisted or scheduled for it.
\<close>

definition handleError :: "TaskManager \<Rightarrow> string \<Rightarrow> error \<Rightarrow> int \<Rightarrow> TaskManager" where
  "handleError tm taskId e now =
     (let pm = pollingManager tm;
          k = errorCount_or_0 pm taskId + 1;
          pm' = pm\<lparr>errorCounts := (errorCounts pm)(taskId \<mapsto> k)\<rparr>
      in case map_of (storageManager tm) taskId of
           None \<Rightarrow> tm\<lparr>pollingManager := pm'\<rparr>
         | Some t \<Rightarrow>
             (let t' = t\<lparr>consecutiveErrorCount := k\<rparr>
              in tm\<lparr>pollingManager := pm',
                    storageManager := saveTask taskId t' (storageManager tm),
                    timers := timers tm @ [(taskId, t', getTaskInterval pm' taskId now)]\<rparr>))"

text \<open>
  One run of the closure \<open>monitor\<close> of \<open>startMonitoring(taskId, task)\<close>, from the call of
  \<open>fetchTaskXML\<close> to the end; \<open>now\<close> is the clock when the response is handled. The
  timer for the next cycle is set inside the \<open>try\<close> block, after a cycle that did not
  throw; everything thrown goes to \<open>handleError\<close>.
\<close>

definition monitor :: "tm_env \<Rightarrow> TaskManager \<Rightarrow> string \<Rightarrow> task \<Rightarrow> int \<Rightarrow> TaskManager" where
  "monitor E tm taskId task now =
     (case fetchTaskXML (xml E) (xmlManager tm) (url task) of
        (Inl e, xm') \<Rightarrow> handleError (tm\<lparr>xmlManager := xm'\<rparr>) taskId e now
      | (Inr result, xm') \<Rightarrow>
          (let tm1 = tm\<lparr>xmlManager := xm'\<rparr>
           in case (if changed result then handleChanges E taskId result now tm1
                    else (None, tm1)) of
                (Some e, tm2) \<Rightarrow> handleError tm2 taskId e now
              | (None, tm2) \<Rightarrow>
                  (let nextInterval = getTaskInterval (pollingManager tm2) taskId now
                   in tm2\<lparr>timers := timers tm2 @ [(taskId, task, nextInterval)]\<rparr>)))"

text \<open>
  \<open>startMonitoring(taskId, task)\<close> calls \<open>monitor()\<close> at once: the first cycle has no
  delay.
\<close>

definition startMonitoring :: "TaskManager \<Rightarrow> string \<Rightarrow> task \<Rightarrow> TaskManager" where
  "startMonitoring tm taskId task = tm\<lparr>timers := timers tm @ [(taskId, task, 0)]\<rparr>"

text \<open>The first pending timer fires: it is removed and its closure runs.\<close>

definition fire :: "tm_env \<Rightarrow> TaskManager \<Rightarrow> int \<Rightarrow> TaskManager" where
  "fire E tm now =
     (case timers tm of
        [] \<Rightarrow> tm
      | (taskId, task, delay) # rest \<Rightarrow> monitor E (tm\<lparr>timers := rest\<rparr>) taskId task now)"

text \<open>\<open>addTask(taskUrl)\<close>, called when the clock reads \<open>now\<close>.\<close>

definition addTask :: "tm_env \<Rightarrow> TaskManager \<Rightarrow> string \<Rightarrow> int \<Rightarrow> (error + string) \<times> TaskManager" where
  "addTask E tm taskUrl now =
     (let taskId = extractTaskId E taskUrl
      in case validateTask E taskUrl of
           Some e \<Rightarrow> (Inl e, tm)
         | None \<Rightarrow>
             (let task = \<lparr>url = taskUrl, added = now, lastCheck = None,
                          task_status = ''active'', lastChange = None, snapshot = None,
                          consecutiveErrorCount = 0\<rparr>;
                  tm1 = tm\<lparr>storageManager := saveTask taskId task (storageManager tm)\<rparr>
              in (Inr taskId, startMonitoring tm1 taskId task)))"

text \<open>
  Modelled from the spec: \<open>handleChanges(taskId, result)\<close> is called by \<open>monitor\<close> after
  a cycle that found changes but is not part of the source. The specification says that
  on success with changes the orchestrator "forwards the ChangeSet to the Dispatcher and
  persists the updated Task plus new snapshot", that the counter of consecutive errors
  "resets to zero on any successful cycle", and that the result of a cycle of a removed
  task is discarded. The change goes to \<open>addNotification\<close> under the task's id as key
  (the details of the source have no key \<open>type\<close>); the time of the change goes to
  \<open>lastUpdateTimes\<close>, which \<open>getTaskInterval\<close> reads, and the error count to 0; the
  persisted task gets both timestamps, the new record and the count 0.
\<close>

definition handleChanges_model ::
  "notif_env \<Rightarrow> string \<Rightarrow> result \<Rightarrow> int \<Rightarrow> TaskManager \<Rightarrow> error option \<times> TaskManager" where
  "handleChanges_model H taskId r now tm =
     (case map_of (storageManager tm) taskId of
        None \<Rightarrow> (None, tm)
      | Some t \<Rightarrow>
          (let pm = pollingManager tm;
               pm' = pm\<lparr>lastUpdateTimes := (lastUpdateTimes pm)(taskId \<mapsto> now),
                        errorCounts := (errorCounts pm)(taskId \<mapsto> 0)\<rparr>;
               t' = t\<lparr>lastCheck := Some now, lastChange := Some now,
                      snapshot := Some (data r), consecutiveErrorCount := 0\<rparr>;
               nm' = addNotification H (notificationManager tm)
                       \<lparr>taskKey = taskId, changes_type = None\<rparr> now
           in (None, tm\<lparr>pollingManager := pm', notificationManager := nm',
                        storageManager := saveTask taskId t' (storageManager tm)\<rparr>)))"

text \<open>
  Modelled from the spec: the delay of the first cycle after a restart. The specification
  has it computed from the persisted timestamps of the last check and of the last change,
  so that elapsed time is not reset: the interval is the one the polling manager gives
  (from the time of the last change and the error count), and the time that has passed
  since the last check counts towards it. A task that was never checked waits the whole
  interval.
\<close>

definition resume_delay :: "int option \<Rightarrow> int \<Rightarrow> int \<Rightarrow> int" where
  "resume_delay last_check interval now =
     (case last_check of
        None \<Rightarrow> interval
      | Some checked \<Rightarrow> max 0 (checked + interval - now))"

text \<open>
  Modelled from the spec: \<open>resumeTask(taskId, taskData)\<close> is called by \<open>initialize\<close> but
  is not part of the source. The specification says that on restart "every persisted task
  whose status is non-terminal is re-entered into Monitoring using its persisted
  lastCheckTimestamp/lastChangeTimestamp to compute the correct initial delay", and that a
  resumed task has the source locator, cached snapshot and error counter it had. The only
  status the source gives a task is \<open>'active'\<close>, taken here as the non-terminal one. The
  persisted snapshot, error count and time of the last change go where the source reads
  them: the cache of the XML manager under the task's URL, and \<open>errorCounts\<close> and
  \<open>lastUpdateTimes\<close> of the polling manager under the task's id. The first cycle is
  scheduled after \<open>resume_delay\<close>.
\<close>

definition resumeTask :: "TaskManager \<Rightarrow> string \<Rightarrow> task \<Rightarrow> int \<Rightarrow> TaskManager" where
  "resumeTask tm taskId taskData now =
     (if task_status taskData \<noteq> ''active'' then tm
      else
        (let pm = pollingManager tm;
             pm' = pm\<lparr>lastUpdateTimes := (lastUpdateTimes pm)(taskId := lastChange taskData),
                      errorCounts := (errorCounts pm)(taskId \<mapsto> consecutiveErrorCount taskData)\<rparr>;
             xm = xmlManager tm;
             xm' = xm\<lparr>cache := (cache xm)(url taskData := snapshot taskData)\<rparr>
         in tm\<lparr>pollingManager := pm', xmlManager := xm',
               activeTasks := (activeTasks tm)(taskId \<mapsto> taskData),
               timers := timers tm @
                 [(taskId, taskData,
                   resume_delay (lastCheck taskData) (getTaskInterval pm' taskId now) now)]\<rparr>))"

text \<open>
  \<open>Object.entries\<close> lists the keys that are array indices first, in ascending numeric
  order, and then the other string keys in the order of their insertion. An array index
  is the canonical decimal string of an integer below \<open>2^32 - 1\<close>: digits only, with no
  leading zero except for \<open>"0"\<close> itself.
\<close>

definition nat_of_digits :: "string \<Rightarrow> nat" where
  "nat_of_digits k = foldl (\<lambda>n c. 10 * n + (of_char c - 48)) 0 k"

definition array_index :: "string \<Rightarrow> nat option" where
  "array_index k =
     (if k \<noteq> [] \<and> list_all (\<lambda>c. c \<in> set ''0123456789'') k
         \<and> (k = ''0'' \<or> hd k \<noteq> CHR ''0'') \<and> nat_of_digits k < 2 ^ 32 - 1
      then Some (nat_of_digits k) else None)"

definition Object_entries :: "(string \<times> 'v) list \<Rightarrow> (string \<times> 'v) list" where
  "Object_entries obj =
     sort_key (\<lambda>(k, v). the (array_index k)) (filter (\<lambda>(k, v). array_index k \<noteq> None) obj)
     @ filter (\<lambda>(k, v). array_index k = None) obj"

text \<open>
  \<open>initialize()\<close>: the loop over \<open>Object.entries(saved)\<close>. A restart is the constructor
  on the store as the stopped process left it, followed by \<open>initialize\<close>.
\<close>

definition initialize :: "TaskManager \<Rightarrow> int \<Rightarrow> TaskManager" where
  "initialize tm now =
     fold (\<lambda>(taskId, taskData) tm'. resumeTask tm' taskId taskData now)
       (Object_entries (loadTasks (storageManager tm))) tm"

definition restart :: "storage \<Rightarrow> int \<Rightarrow> TaskManager" where
  "restart store now = initialize (TaskManager_new store) now"

text \<open>
  The life of a task manager: calls of \<open>addTask\<close>, pending timers that fire, and
  restarts of the process on the store as it is. The timer at position \<open>i\<close> fires when
  the clock reads \<open>now\<close>, and the network answers the request of that cycle with
  \<open>outcome\<close>, whatever the URL; timers may fire in any order. A restart loses the pending
  timers and everything else that is not in the store.
\<close>

datatype tm_event = AddTask string int | Cycle nat "error + response" int | Restart int

fun tm_step :: "tm_env \<Rightarrow> tm_event \<Rightarrow> TaskManager \<Rightarrow> TaskManager" where
  "tm_step E (AddTask taskUrl now) tm = snd (addTask E tm taskUrl now)"
| "tm_step E (Cycle i outcome now) tm =
     (if i < length (timers tm)
      then (case timers tm ! i of
              (taskId, task, delay) \<Rightarrow>
                monitor (E\<lparr>xml := (xml E)\<lparr>fetch := (\<lambda>u. outcome)\<rparr>\<rparr>)
                  (tm\<lparr>timers := take i (timers tm) @ drop (Suc i) (timers tm)\<rparr>)
                  taskId task now)
      else tm)"
| "tm_step E (Restart now) tm = restart (storageManager tm) now"

definition tm_run :: "tm_env \<Rightarrow> tm_event list \<Rightarrow> TaskManager \<Rightarrow> TaskManager" where
  "tm_run E evs tm = fold (tm_step E) evs tm"

fun added_urls :: "tm_event list \<Rightarrow> string list" where
  "added_urls [] = []"
| "added_urls (AddTask taskUrl now # evs) = taskUrl # added_urls evs"
| "added_urls (Cycle i outcome now # evs) = added_urls evs"
| "added_urls (Restart now # evs) = added_urls evs"

text \<open>
  The in-memory state of a task agrees with its persisted record \<open>t\<close>: the record is in
  the store under the task's id, and the cache, the error count and the time of the last
  change are those of the record.
\<close>

definition in_sync :: "TaskManager \<Rightarrow> string \<Rightarrow> task \<Rightarrow> bool" where
  "in_sync tm taskId t =
     (map_of (storageManager tm) taskId = Some t
      \<and> cache (xmlManager tm) (url t) = snapshot t
      \<and> errorCount_or_0 (pollingManager tm) taskId = consecutiveErrorCount t
      \<and> lastUpdateTimes (pollingManager tm) taskId = lastChange t
      \<and> pollingInterval (pollingManager tm) = 30000)"

text \<open>
  What holds of every state a task manager reaches: the ids of the store are distinct;
  every persisted task is active and stored under the id of its URL; every pending timer
  is for a persisted id, the id of its URL; the cache has records only for URLs of
  persisted ids, and the polling manager has entries only for persisted ids.
\<close>

definition tm_inv :: "tm_env \<Rightarrow> TaskManager \<Rightarrow> bool" where
  "tm_inv E tm =
     (distinct (map fst (storageManager tm))
      \<and> (\<forall>k t. map_of (storageManager tm) k = Some t \<longrightarrow>
             k = extractTaskId E (url t) \<and> task_status t = ''active'')
      \<and> (\<forall>(k, task, d) \<in> set (timers tm).
             k = extractTaskId E (url task) \<and> map_of (storageManager tm) k \<noteq> None)
      \<and> (\<forall>u td. cache (xmlManager tm) u = Some td \<longrightarrow>
             map_of (storageManager tm) (extractTaskId E u) \<noteq> None)
      \<and> (\<forall>k. map_of (storageManager tm) k = None \<longrightarrow>
             errorCounts (pollingManager tm) k = None
             \<and> lastUpdateTimes (pollingManager tm) k = None)
      \<and> pollingInterval (pollingManager tm) = 30000)"

text \<open>
  The task with id \<open>k\<close> and URL \<open>u\<close> is in order: its persisted record has that URL and
  agrees with the in-memory state, and every pending timer of the task is for that URL.
\<close>

definition task_ok :: "TaskManager \<Rightarrow> string \<Rightarrow> string \<Rightarrow> bool" where
  "task_ok tm k u =
     ((\<exists>t. in_sync tm k t \<and> url t = u)
      \<and> (\<forall>(j, task, d) \<in> set (timers tm). j = k \<longrightarrow> url task = u))"

text \<open>
  The state \<open>tm'\<close> comes from \<open>tm\<close> by one operation on the task with id \<open>j\<close> that
  fetches at most the URL \<open>u\<close> and leaves the record \<open>t'\<close> in the store: one timer of the
  task is added, and the cache and the polling manager change at most at \<open>u\<close> and \<open>j\<close>.
\<close>

definition task_step :: "TaskManager \<Rightarrow> TaskManager \<Rightarrow> string \<Rightarrow> string \<Rightarrow> task \<Rightarrow> bool" where
  "task_step tm tm' j u t' =
     (map_of (storageManager tm') = (map_of (storageManager tm))(j \<mapsto> t')
      \<and> (distinct (map fst (storageManager tm)) \<longrightarrow> distinct (map fst (storageManager tm')))
      \<and> (\<exists>task' d. timers tm' = timers tm @ [(j, task', d)]
            \<and> (url task' = u \<or> url task' = url t'))
      \<and> (\<forall>v. v \<noteq> u \<longrightarrow> cache (xmlManager tm') v = cache (xmlManager tm) v)
      \<and> (\<forall>i. i \<noteq> j \<longrightarrow>
            errorCounts (pollingManager tm') i = errorCounts (pollingManager tm) i
            \<and> lastUpdateTimes (pollingManager tm') i = lastUpdateTimes (pollingManager tm) i)
      \<and> pollingInterval (pollingManager tm') = pollingInterval (pollingManager tm))"

text \<open>The URLs that a run adds under the id \<open>k\<close>, in order.\<close>

definition adds_of :: "tm_env \<Rightarrow> string \<Rightarrow> tm_event list \<Rightarrow> string list" where
  "adds_of E k evs = filter (\<lambda>u. extractTaskId E u = k) (added_urls evs)"

text \<open>What \<open>resumeTask\<close> has done for the task \<open>taskId\<close> with the persisted record \<open>t\<close>.\<close>

definition resumed :: "TaskManager \<Rightarrow> string \<Rightarrow> task \<Rightarrow> int \<Rightarrow> bool" where
  "resumed tm taskId t now =
     (activeTasks tm taskId = Some t
      \<and> cache (xmlManager tm) (url t) = snapshot t
      \<and> errorCounts (pollingManager tm) taskId = Some (consecutiveErrorCount t)
      \<and> lastUpdateTimes (pollingManager tm) taskId = lastChange t
      \<and> (taskId, t, resume_delay (lastCheck t) (getTaskInterval (pollingManager tm) taskId now) now)
           \<in> set (timers tm))"

section \<open>Sample data for the task manager\<close>

definition sample_tm_env :: tm_env where
  "sample_tm_env =
     \<lparr>xml = sample_xml_env, extractTaskId = drop 7, validateTask = (\<lambda>u. None),
      handleChanges = (\<lambda>taskId r now tm. (None, tm))\<rparr>"

definition added_one :: TaskManager where
  "added_one = snd (addTask sample_tm_env (TaskManager_new []) ''browse/JIRA-1'' 100)"

text \<open>
  An instance of the parameters in which \<open>handleChanges\<close> is the model above, and a run:
  a task is added at clock reading 100, and its first cycle, answered at 1000, fetches
  the record \<open>snap_todo\<close>.
\<close>

definition spec_tm_env :: tm_env where
  "spec_tm_env =
     \<lparr>xml = sample_xml_env, extractTaskId = drop 7, validateTask = (\<lambda>u. None),
      handleChanges = handleChanges_model sample_notif_env\<rparr>"

definition ok_todo :: "error + response" where
  "ok_todo = Inr \<lparr>ok = True, http_status = 200, text_of = Inr ''<todo/>''\<rparr>"

definition added_and_polled :: "tm_event list" where
  "added_and_polled = [AddTask ''browse/JIRA-1'' 100, Cycle 0 ok_todo 1000]"

definition added_polled_added_again :: "tm_event list" where
  "added_polled_added_again =
     [AddTask ''browse/JIRA-1'' 100, Cycle 0 ok_todo 1000, AddTask ''browse/JIRA-1'' 2000]"

definition polled_task :: task where
  "polled_task =
     \<lparr>url = ''browse/JIRA-1'', added = 100, lastCheck = Some 1000, task_status = ''active'',
      lastChange = Some 1000, snapshot = Some snap_todo, consecutiveErrorCount = 0\<rparr>"

section \<open>Properties of the polling manager\<close>

lemma backoff_bounds:
  fixes k :: nat
  assumes "0 < k"
  shows "(30000::int) \<le> min (30000 * 2 ^ k) 900000" and "min ((30000::int) * 2 ^ k) 900000 \<le> 900000"
proof -
  have "(1::int) \<le> 2 ^ k" by simp
  then have "(30000::int) * 1 \<le> 30000 * 2 ^ k" by (intro mult_left_mono) simp_all
  then show "(30000::int) \<le> min (30000 * 2 ^ k) 900000" by simp
  show "min ((30000::int) * 2 ^ k) 900000 \<le> 900000" by simp
qed

text \<open>
  Claim C1. For every task, whatever its error count, its last update time and the
  clock, the delay that \<open>getTaskInterval\<close> returns lies between 30 seconds and 15 minutes
  (30000 and 900000 milliseconds), the base interval being the 30000 the constructor sets.
\<close>

theorem getTaskInterval_range:
  assumes "pollingInterval pm = 30000"
  shows "30000 \<le> getTaskInterval pm taskId now \<and> getTaskInterval pm taskId now \<le> 900000"
proof (cases "0 < errorCount_or_0 pm taskId")
  case True
  then show ?thesis
    using assms backoff_bounds [of "errorCount_or_0 pm taskId"]
    by (simp add: getTaskInterval_def Let_def)
next
  case False
  then show ?thesis
    using assms by (simp add: getTaskInterval_def Let_def)
qed

theorem getTaskInterval_range_witness:
  "pollingInterval (PollingManager_new\<lparr>lastUpdateTimes := [''JIRA-1'' \<mapsto> 1000]\<rparr>) = 30000
   \<and> getTaskInterval (PollingManager_new\<lparr>lastUpdateTimes := [''JIRA-1'' \<mapsto> 1000]\<rparr>)
        ''JIRA-1'' 7200000 = 300000
   \<and> 30000 \<le> getTaskInterval (PollingManager_new\<lparr>lastUpdateTimes := [''JIRA-1'' \<mapsto> 1000]\<rparr>)
        ''JIRA-1'' 7200000
   \<and> getTaskInterval (PollingManager_new\<lparr>lastUpdateTimes := [''JIRA-1'' \<mapsto> 1000]\<rparr>)
        ''JIRA-1'' 7200000 \<le> 900000"
  using getTaskInterval_range
    [of "PollingManager_new\<lparr>lastUpdateTimes := [''JIRA-1'' \<mapsto> 1000]\<rparr>" "''JIRA-1''" 7200000]
  by (simp add: PollingManager_new_def getTaskInterval_def errorCount_or_0_def falsy_time_def)

text \<open>
  Claim C2. For a task whose error count is \<open>k > 0\<close> the delay is
  \<open>min (30000 * 2 ^ k) 900000\<close>: the backoff branch is tested first, so neither the stored
  last update time nor the clock has any influence on the result. Three consecutive
  errors give 8 times the base interval, 240000 milliseconds.
\<close>

theorem getTaskInterval_backoff:
  assumes "pollingInterval pm = 30000" and "errorCounts pm taskId = Some k" and "0 < k"
  shows "getTaskInterval pm taskId now = min (30000 * 2 ^ k) 900000
       \<and> getTaskInterval (pm\<lparr>lastUpdateTimes := l\<rparr>) taskId now' = getTaskInterval pm taskId now
       \<and> (k = 3 \<longrightarrow> getTaskInterval pm taskId now = 30000 * 8)"
  using assms by (simp add: getTaskInterval_def errorCount_or_0_def Let_def)

theorem getTaskInterval_backoff_witness:
  "pollingInterval (PollingManager_new\<lparr>lastUpdateTimes := [''JIRA-1'' \<mapsto> 5], errorCounts := [''JIRA-1'' \<mapsto> 3]\<rparr>) = 30000
   \<and> errorCounts (PollingManager_new\<lparr>lastUpdateTimes := [''JIRA-1'' \<mapsto> 5], errorCounts := [''JIRA-1'' \<mapsto> 3]\<rparr>) ''JIRA-1'' = Some 3
   \<and> (0::nat) < 3
   \<and> getTaskInterval (PollingManager_new\<lparr>lastUpdateTimes := [''JIRA-1'' \<mapsto> 5], errorCounts := [''JIRA-1'' \<mapsto> 3]\<rparr>) ''JIRA-1'' 10
       = 240000"
  using getTaskInterval_backoff
    [of "PollingManager_new\<lparr>lastUpdateTimes := [''JIRA-1'' \<mapsto> 5], errorCounts := [''JIRA-1'' \<mapsto> 3]\<rparr>"
        "''JIRA-1''" 3 10 "Map.empty" 99]
  by (simp add: PollingManager_new_def)

section \<open>Properties of the XML manager\<close>

lemma check_field_same: "check_field d d f c = c"
  by (simp add: check_field_def)

lemma detectChanges_same: "detectChanges (Some d) d = \<lparr>hasChanges = False, details = no_details\<rparr>"
  by (simp add: detectChanges_def check_field_same)

lemma processXMLData_ok:
  assumes "parseXML E xmlText = Inr td"
  shows "processXMLData E xm xmlText taskUrl =
     (Inr \<lparr>changed = hasChanges (detectChanges (cache xm taskUrl) td),
           changes = details (detectChanges (cache xm taskUrl) td), data = td\<rparr>,
      if hasChanges (detectChanges (cache xm taskUrl) td)
      then xm\<lparr>cache := (cache xm)(taskUrl \<mapsto> td)\<rparr> else xm)"
  using assms by (simp add: processXMLData_def Let_def)

text \<open>
  Claim C3. A cycle whose content parses to \<open>td\<close> writes \<open>td\<close> into the cache under the task's
  URL exactly when the diff against the cached record reports changes, which it always
  does when nothing is cached; otherwise the manager is left as it was. A second cycle
  whose content parses to the same record then reports no change and leaves the manager,
  hence the cached record, unmodified.
\<close>

theorem cache_replaced_iff_changes:
  assumes "parseXML E xmlText = Inr td" and "parseXML E xmlText' = Inr td"
    and "processXMLData E xm xmlText taskUrl = (res, xm')"
    and "processXMLData E xm' xmlText' taskUrl = (res', xm'')"
  shows "(\<exists>r. res = Inr r
            \<and> changed r = hasChanges (detectChanges (cache xm taskUrl) td)
            \<and> (cache xm taskUrl = None \<longrightarrow> changed r)
            \<and> (changed r \<longrightarrow> xm' = xm\<lparr>cache := (cache xm)(taskUrl \<mapsto> td)\<rparr>)
            \<and> (\<not> changed r \<longrightarrow> xm' = xm))
       \<and> (\<exists>r'. res' = Inr r' \<and> \<not> changed r' \<and> xm'' = xm')"
proof (cases "hasChanges (detectChanges (cache xm taskUrl) td)")
  case True
  with assms(3) processXMLData_ok [OF assms(1), of xm taskUrl]
  have 1: "xm' = xm\<lparr>cache := (cache xm)(taskUrl \<mapsto> td)\<rparr>" "\<exists>r. res = Inr r \<and> changed r" by auto
  then have "cache xm' taskUrl = Some td" by simp
  with assms(4) processXMLData_ok [OF assms(2), of xm' taskUrl]
  have "\<exists>r'. res' = Inr r' \<and> \<not> changed r' \<and> xm'' = xm'"
    by (auto simp: detectChanges_same)
  with 1 True show ?thesis by auto
next
  case False
  with assms(3) processXMLData_ok [OF assms(1), of xm taskUrl]
  have 1: "xm' = xm" "\<exists>r. res = Inr r \<and> \<not> changed r" by auto
  with False assms(4) processXMLData_ok [OF assms(2), of xm' taskUrl]
  have "\<exists>r'. res' = Inr r' \<and> \<not> changed r' \<and> xm'' = xm'"
    by auto
  with 1 False show ?thesis by (auto simp: detectChanges_def)
qed


theorem cache_replaced_iff_changes_witness:
  "parseXML sample_xml_env ''<todo/>'' = Inr snap_todo
   \<and> processXMLData sample_xml_env XMLManager_new ''<todo/>'' ''browse/JIRA-1''
       = (Inr \<lparr>changed = True, changes = no_details\<lparr>isNew := True\<rparr>, data = snap_todo\<rparr>,
          XMLManager_new\<lparr>cache := [''browse/JIRA-1'' \<mapsto> snap_todo]\<rparr>)
   \<and> processXMLData sample_xml_env (XMLManager_new\<lparr>cache := [''browse/JIRA-1'' \<mapsto> snap_todo]\<rparr>)
         ''<todo/>'' ''browse/JIRA-1''
       = (Inr \<lparr>changed = False, changes = no_details, data = snap_todo\<rparr>,
          XMLManager_new\<lparr>cache := [''browse/JIRA-1'' \<mapsto> snap_todo]\<rparr>)"
proof -
  have p: "parseXML sample_xml_env ''<todo/>'' = Inr snap_todo"
    by (simp add: sample_xml_env_def sample_parseXML_def)
  have a: "processXMLData sample_xml_env XMLManager_new ''<todo/>'' ''browse/JIRA-1''
       = (Inr \<lparr>changed = True, changes = no_details\<lparr>isNew := True\<rparr>, data = snap_todo\<rparr>,
          XMLManager_new\<lparr>cache := [''browse/JIRA-1'' \<mapsto> snap_todo]\<rparr>)"
    by (simp add: processXMLData_def p XMLManager_new_def detectChanges_def)
  have b: "processXMLData sample_xml_env (XMLManager_new\<lparr>cache := [''browse/JIRA-1'' \<mapsto> snap_todo]\<rparr>)
         ''<todo/>'' ''browse/JIRA-1''
       = (Inr \<lparr>changed = False, changes = no_details, data = snap_todo\<rparr>,
          XMLManager_new\<lparr>cache := [''browse/JIRA-1'' \<mapsto> snap_todo]\<rparr>)"
    using cache_replaced_iff_changes [OF p p a, of "fst (processXMLData sample_xml_env (XMLManager_new\<lparr>cache := [''browse/JIRA-1'' \<mapsto> snap_todo]\<rparr>)
         ''<todo/>'' ''browse/JIRA-1'')" "snd (processXMLData sample_xml_env (XMLManager_new\<lparr>cache := [''browse/JIRA-1'' \<mapsto> snap_todo]\<rparr>)
         ''<todo/>'' ''browse/JIRA-1'')"]
    by (simp add: processXMLData_def p XMLManager_new_def detectChanges_def check_field_def)
  from p a b show ?thesis by simp
qed

text \<open>
  Claim C5, as stated, has the details of the first change set carry the whole new record.
  In the source the details of a first fetch are the object \<open>{ isNew: true }\<close> and nothing
  else: two first fetches of different records have the same details, with no entry for
  the status and no comments.
\<close>

theorem first_fetch_details_counterexample:
  "details (detectChanges None snap_todo) = details (detectChanges None snap_progress)
   \<and> snap_todo \<noteq> snap_progress
   \<and> fieldChanges (details (detectChanges None snap_todo)) Status = None
   \<and> newComments (details (detectChanges None snap_todo)) = None"
  by (simp add: detectChanges_def no_details_def snap_todo_def snap_progress_def)

text \<open>
  Claim C5, amended. For a task with nothing cached, a cycle whose content parses to \<open>td\<close>
  returns \<open>changed = true\<close> with details that consist of \<open>isNew = true\<close> alone; the whole
  new record is the \<open>data\<close> field of the result, beside the details, and it is cached
  under the task's URL.
\<close>

theorem first_fetch_is_new:
  assumes "parseXML E xmlText = Inr td" and "cache xm taskUrl = None"
    and "processXMLData E xm xmlText taskUrl = (res, xm')"
  shows "res = Inr \<lparr>changed = True, changes = no_details\<lparr>isNew := True\<rparr>, data = td\<rparr>
       \<and> detectChanges None td = \<lparr>hasChanges = True, details = no_details\<lparr>isNew := True\<rparr>\<rparr>
       \<and> xm' = xm\<lparr>cache := (cache xm)(taskUrl \<mapsto> td)\<rparr>
       \<and> cache xm' taskUrl = Some td"
  using assms by (auto simp: processXMLData_def detectChanges_def Let_def)

theorem first_fetch_is_new_witness:
  "parseXML sample_xml_env ''<todo/>'' = Inr snap_todo
   \<and> cache XMLManager_new ''browse/JIRA-1'' = None
   \<and> fst (processXMLData sample_xml_env XMLManager_new ''<todo/>'' ''browse/JIRA-1'')
       = Inr \<lparr>changed = True, changes = no_details\<lparr>isNew := True\<rparr>, data = snap_todo\<rparr>
   \<and> cache (snd (processXMLData sample_xml_env XMLManager_new ''<todo/>'' ''browse/JIRA-1''))
        ''browse/JIRA-1'' = Some snap_todo"
proof -
  have p: "parseXML sample_xml_env ''<todo/>'' = Inr snap_todo"
    by (simp add: sample_xml_env_def sample_parseXML_def)
  have c: "cache XMLManager_new ''browse/JIRA-1'' = None"
    by (simp add: XMLManager_new_def)
  from first_fetch_is_new [OF p c surjective_pairing] p c show ?thesis by simp
qed

text \<open>
  Claim C6. When the new record has more comments than the old one, the diff reports a
  change and \<open>newComments\<close> is the new list without its first \<open>length old\<close> entries: the
  tail of length \<open>length new - length old\<close>, in the order of the new list.
\<close>

theorem new_comments_tail:
  assumes "length (comments old) < length (comments new)"
  shows "hasChanges (detectChanges (Some old) new)
       \<and> newComments (details (detectChanges (Some old) new))
           = Some (drop (length (comments old)) (comments new))
       \<and> length (drop (length (comments old)) (comments new))
           = length (comments new) - length (comments old)
       \<and> comments new = take (length (comments old)) (comments new)
                          @ drop (length (comments old)) (comments new)"
  using assms by (simp add: detectChanges_def Let_def)

theorem new_comments_tail_witness:
  "length (comments snap_todo) < length (comments snap_progress)
   \<and> hasChanges (detectChanges (Some snap_todo) snap_progress)
   \<and> newComments (details (detectChanges (Some snap_todo) snap_progress))
       = Some [''c3'', ''c4'', ''c5'']"
proof -
  have l: "length (comments snap_todo) < length (comments snap_progress)"
    by (simp add: snap_todo_def snap_progress_def)
  from new_comments_tail [OF l] l show ?thesis
    by (simp add: snap_todo_def snap_progress_def)
qed

section \<open>Properties of the notification manager\<close>

lemma findIndex_None: "findIndex P xs = None \<longleftrightarrow> (\<forall>x \<in> set xs. \<not> P x)"
  by (induction xs) auto


lemma findIndex_first:
  "i < length xs \<Longrightarrow> P (xs ! i) \<Longrightarrow> \<forall>j < i. \<not> P (xs ! j) \<Longrightarrow> findIndex P xs = Some i"
proof (induction xs arbitrary: i)
  case Nil
  then show ?case by simp
next
  case (Cons x xs)
  show ?case
  proof (cases i)
    case 0
    with Cons.prems show ?thesis by simp
  next
    case (Suc k)
    with Cons.prems have "\<not> P x" by auto
    moreover from Suc Cons.prems have "findIndex P xs = Some k"
      by (intro Cons.IH) auto
    ultimately show ?thesis using Suc by simp
  qed
qed

lemma window_inv_nth:
  "window_inv q \<longleftrightarrow>
     (\<forall>i j. i < j \<and> j < length q \<and> groupId (q ! j) = groupId (q ! i)
        \<longrightarrow> 300000 \<le> timestamp (q ! j) - timestamp (q ! i))"
proof (induction q)
  case Nil
  then show ?case by simp
next
  case (Cons n ns)
  show ?case (is "?L = ?R")
  proof
    assume L: ?L
    show ?R
    proof (intro allI impI)
      fix i j
      assume a: "i < j \<and> j < length (n # ns) \<and> groupId ((n # ns) ! j) = groupId ((n # ns) ! i)"
      then obtain j' where j': "j = Suc j'" "j' < length ns" by (cases j) auto
      show "300000 \<le> timestamp ((n # ns) ! j) - timestamp ((n # ns) ! i)"
      proof (cases i)
        case 0
        with a j' L show ?thesis by auto
      next
        case (Suc i')
        with a j' L Cons.IH show ?thesis by auto
      qed
    qed
  next
    assume R: ?R
    have "\<forall>m \<in> set ns. groupId m = groupId n \<longrightarrow> 300000 \<le> timestamp m - timestamp n"
    proof (intro ballI impI)
      fix m assume "m \<in> set ns" "groupId m = groupId n"
      then obtain k where "k < length ns" "ns ! k = m" by (auto simp: in_set_conv_nth)
      with R [rule_format, of 0 "Suc k"] \<open>groupId m = groupId n\<close>
      show "300000 \<le> timestamp m - timestamp n" by simp
    qed
    moreover have "window_inv ns"
      unfolding Cons.IH
    proof (intro allI impI)
      fix i j assume "i < j \<and> j < length ns \<and> groupId (ns ! j) = groupId (ns ! i)"
      with R [rule_format, of "Suc i" "Suc j"]
      show "300000 \<le> timestamp (ns ! j) - timestamp (ns ! i)" by simp
    qed
    ultimately show ?L by simp
  qed
qed

lemma window_inv_append:
  "window_inv (q @ [n]) \<longleftrightarrow>
     window_inv q \<and> (\<forall>m \<in> set q. groupId n = groupId m \<longrightarrow> 300000 \<le> timestamp n - timestamp m)"
  by (induction q) auto

lemma window_inv_tl: "window_inv q \<Longrightarrow> window_inv (tl q)"
  by (cases q) simp_all

lemma window_inv_message:
  "window_inv (q[i := (q ! i)\<lparr>message := x\<rparr>]) = window_inv q"
proof -
  let ?q' = "q[i := (q ! i)\<lparr>message := x\<rparr>]"
  have same: "groupId (?q' ! k) = groupId (q ! k) \<and> timestamp (?q' ! k) = timestamp (q ! k)"
    if "k < length q" for k
    using that by (cases "k = i") simp_all
  show ?thesis
    unfolding window_inv_nth
  proof (intro iffI allI impI)
    fix a b
    assume h: "\<forall>i j. i < j \<and> j < length ?q' \<and> groupId (?q' ! j) = groupId (?q' ! i)
                 \<longrightarrow> 300000 \<le> timestamp (?q' ! j) - timestamp (?q' ! i)"
      and ab: "a < b \<and> b < length q \<and> groupId (q ! b) = groupId (q ! a)"
    then have "a < length q" "b < length q" by auto
    with same [of a] same [of b] h [rule_format, of a b] ab
    show "300000 \<le> timestamp (q ! b) - timestamp (q ! a)" by simp
  next
    fix a b
    assume h: "\<forall>i j. i < j \<and> j < length q \<and> groupId (q ! j) = groupId (q ! i)
                 \<longrightarrow> 300000 \<le> timestamp (q ! j) - timestamp (q ! i)"
      and ab: "a < b \<and> b < length ?q' \<and> groupId (?q' ! b) = groupId (?q' ! a)"
    then have "a < length q" "b < length q" by auto
    with same [of a] same [of b] h [rule_format, of a b] ab
    show "300000 \<le> timestamp (?q' ! b) - timestamp (?q' ! a)" by simp
  qed
qed

subsection \<open>One call of addNotification\<close>

lemma addNotification_merge:
  assumes "grouping (preferences nm)"
    and "findIndex (similar_to (createNotification H u now)) (notificationQueue nm) = Some i"
  shows "addNotification H nm u now =
           nm\<lparr>notificationQueue := (notificationQueue nm)
                [i := (notificationQueue nm ! i)\<lparr>message :=
                   createGroupMessage H (notificationQueue nm ! i) (createNotification H u now)\<rparr>]\<rparr>"
  using assms by (simp add: addNotification_def tryGroupNotification_def Let_def)

lemma addNotification_push:
  assumes "\<not> grouping (preferences nm)
           \<or> findIndex (similar_to (createNotification H u now)) (notificationQueue nm) = None"
  shows "addNotification H nm u now = push_and_process nm (createNotification H u now)"
  using assms by (auto simp: addNotification_def tryGroupNotification_def Let_def)

lemma push_and_process_queue:
  "notificationQueue (push_and_process nm n) =
     (if isProcessing nm \<or> \<not> enabled (preferences nm) then notificationQueue nm @ [n]
      else tl (notificationQueue nm @ [n]))"
  by (cases "notificationQueue nm")
     (simp_all add: push_and_process_def processQueue_def processQueue_loop_def Let_def)

lemma push_and_process_presented:
  "presented (push_and_process nm n) =
     (if isProcessing nm \<or> \<not> enabled (preferences nm) then presented nm
      else presented nm @ [hd (notificationQueue nm @ [n])])"
  by (cases "notificationQueue nm")
     (simp_all add: push_and_process_def processQueue_def processQueue_loop_def Let_def)

lemma push_and_process_preferences [simp]:
  "preferences (push_and_process nm n) = preferences nm"
  by (cases "notificationQueue nm")
     (simp_all add: push_and_process_def processQueue_def processQueue_loop_def Let_def)

lemma addNotification_preferences [simp]:
  "preferences (addNotification H nm u now) = preferences nm"
  by (simp add: addNotification_def tryGroupNotification_def Let_def split: option.splits)

lemma step_preferences [simp]: "preferences (step H ev nm) = preferences nm"
  by (cases ev) (simp_all add: processQueue_loop_def split: list.splits)

lemma exec_preferences [simp]: "preferences (exec H evs nm) = preferences nm"
  unfolding exec_def by (induction evs arbitrary: nm) simp_all

lemma exec_snoc: "exec H (evs @ [ev]) nm = step H ev (exec H evs nm)"
  by (simp add: exec_def)

lemma addNotification_window_inv:
  assumes "grouping (preferences nm)" and "window_inv (notificationQueue nm)"
  shows "window_inv (notificationQueue (addNotification H nm u now))"
proof (cases "findIndex (similar_to (createNotification H u now)) (notificationQueue nm)")
  case None
  let ?n = "createNotification H u now"
  from None have "\<forall>m \<in> set (notificationQueue nm). \<not> similar_to ?n m"
    by (simp add: findIndex_None)
  then have "\<forall>m \<in> set (notificationQueue nm).
               groupId ?n = groupId m \<longrightarrow> 300000 \<le> timestamp ?n - timestamp m"
    by (auto simp: similar_to_def)
  with assms(2) have "window_inv (notificationQueue nm @ [?n])"
    by (simp add: window_inv_append)
  then have "window_inv (notificationQueue (push_and_process nm ?n))"
    by (simp add: push_and_process_queue window_inv_tl)
  with None show ?thesis by (simp add: addNotification_push)
next
  case (Some i)
  with assms show ?thesis
    by (simp add: addNotification_merge window_inv_message)
qed

lemma step_window_inv:
  assumes "grouping (preferences nm)" and "window_inv (notificationQueue nm)"
  shows "window_inv (notificationQueue (step H ev nm))"
proof (cases ev)
  case (Add u now)
  with assms show ?thesis by (simp add: addNotification_window_inv)
next
  case Wake
  with assms(2) show ?thesis
    by (cases "notificationQueue nm") (simp_all add: processQueue_loop_def)
qed

lemma exec_window_inv:
  assumes "grouping (preferences nm)" and "window_inv (notificationQueue nm)"
  shows "window_inv (notificationQueue (exec H evs nm))"
  using assms
proof (induction evs rule: rev_induct)
  case Nil
  then show ?case by (simp add: exec_def)
next
  case (snoc ev evs)
  then show ?case by (simp add: exec_snoc step_window_inv)
qed


subsection \<open>Sample runs\<close>

lemmas notif_defs =
  exec_def addNotification_def tryGroupNotification_def push_and_process_def
  processQueue_def processQueue_loop_def createNotification_def similar_to_def
  NotificationManager_new_def sample_notif_env_def upd_def Let_def

lemma queued_one_eval:
  "queued_one =
     \<lparr>notificationQueue =
        [\<lparr>n_id = 1000, n_taskKey = ''JIRA-1'', title = ''Update in JIRA-1'',
          message = ''status'', n_type = Some ''status'', timestamp = 1000,
          groupId = ''JIRA-1''\<rparr>],
      isProcessing = True,
      preferences = \<lparr>enabled = True, sound = False, grouping = True\<rparr>,
      presented =
        [\<lparr>n_id = 0, n_taskKey = ''JIRA-9'', title = ''Update in JIRA-9'',
          message = ''status'', n_type = Some ''status'', timestamp = 0,
          groupId = ''JIRA-9''\<rparr>]\<rparr>"
  by (simp add: queued_one_def notif_defs)

text \<open>
  Claim C4, as stated, holds for every two entries of one task. The source groups only
  under \<open>if (this.preferences.grouping)\<close>: with that preference off, two updates of one
  task, one second apart and both waiting in the queue, take two slots.
\<close>

theorem grouping_disabled_counterexample:
  "map groupId (notificationQueue
      (exec sample_notif_env
         [Add (upd ''JIRA-9'') 0, Add (upd ''JIRA-1'') 1000, Add (upd ''JIRA-1'') 2000]
         (NotificationManager_new\<lparr>preferences := prefs_no_grouping\<rparr>)))
     = [''JIRA-1'', ''JIRA-1'']
   \<and> map timestamp (notificationQueue
      (exec sample_notif_env
         [Add (upd ''JIRA-9'') 0, Add (upd ''JIRA-1'') 1000, Add (upd ''JIRA-1'') 2000]
         (NotificationManager_new\<lparr>preferences := prefs_no_grouping\<rparr>)))
     = [1000, 2000]
   \<and> \<not> window_inv (notificationQueue
      (exec sample_notif_env
         [Add (upd ''JIRA-9'') 0, Add (upd ''JIRA-1'') 1000, Add (upd ''JIRA-1'') 2000]
         (NotificationManager_new\<lparr>preferences := prefs_no_grouping\<rparr>)))"
  by (simp add: notif_defs prefs_no_grouping_def)

text \<open>
  Claim C4, amended. In a manager whose grouping preference is on, in every state it
  reaches from its construction by calls of \<open>addNotification\<close> and resumptions of the
  drain: when an update of a task arrives while an entry of that task is in the queue,
  not before that entry's timestamp and less than 300000 milliseconds after it, the
  update is merged into that entry, whose message becomes the combined message; the
  queue keeps its length, nothing is presented, and the queue never holds two entries of
  one group within the grouping window.
\<close>

theorem grouping_merges_within_window:
  assumes "grouping prefs"
    and "nm = exec H evs (NotificationManager_new\<lparr>preferences := prefs\<rparr>)"
    and "i < length (notificationQueue nm)"
    and "groupId (notificationQueue nm ! i) = taskKey u"
    and "timestamp (notificationQueue nm ! i) \<le> now"
    and "now - timestamp (notificationQueue nm ! i) < 300000"
  shows "notificationQueue (addNotification H nm u now)
           = (notificationQueue nm)
               [i := (notificationQueue nm ! i)\<lparr>message :=
                  createGroupMessage H (notificationQueue nm ! i) (createNotification H u now)\<rparr>]
       \<and> length (notificationQueue (addNotification H nm u now)) = length (notificationQueue nm)
       \<and> presented (addNotification H nm u now) = presented nm
       \<and> window_inv (notificationQueue nm)
       \<and> window_inv (notificationQueue (addNotification H nm u now))"
proof -
  let ?q = "notificationQueue nm"
  let ?n = "createNotification H u now"
  have g: "grouping (preferences nm)"
    using assms(1,2) by simp
  have inv: "window_inv ?q"
    unfolding assms(2) using assms(1)
    by (intro exec_window_inv) (simp_all add: NotificationManager_new_def)
  have here: "similar_to ?n (?q ! i)"
    using assms(4,6) by (simp add: similar_to_def createNotification_def)
  have before: "\<not> similar_to ?n (?q ! j)" if "j < i" for j
  proof
    assume s: "similar_to ?n (?q ! j)"
    then have "groupId (?q ! i) = groupId (?q ! j)"
      using assms(4) by (simp add: similar_to_def createNotification_def)
    with inv that assms(3) have "300000 \<le> timestamp (?q ! i) - timestamp (?q ! j)"
      unfolding window_inv_nth by blast
    with assms(5) have "300000 \<le> now - timestamp (?q ! j)" by simp
    with s show False by (simp add: similar_to_def createNotification_def)
  qed
  have f: "findIndex (similar_to ?n) ?q = Some i"
    using assms(3) here before by (intro findIndex_first) auto
  have m: "addNotification H nm u now =
             nm\<lparr>notificationQueue := ?q[i := (?q ! i)\<lparr>message :=
                createGroupMessage H (?q ! i) ?n\<rparr>]\<rparr>"
    using g f by (rule addNotification_merge)
  from inv have "window_inv (notificationQueue (addNotification H nm u now))"
    using g by (rule addNotification_window_inv [rotated])
  with m inv show ?thesis by simp
qed

theorem grouping_merges_within_window_witness:
  "grouping (preferences NotificationManager_new)
   \<and> queued_one = exec sample_notif_env [Add (upd ''JIRA-9'') 0, Add (upd ''JIRA-1'') 1000]
        (NotificationManager_new\<lparr>preferences := preferences NotificationManager_new\<rparr>)
   \<and> (0::nat) < length (notificationQueue queued_one)
   \<and> groupId (notificationQueue queued_one ! 0) = taskKey (upd ''JIRA-1'')
   \<and> timestamp (notificationQueue queued_one ! 0) \<le> 200000
   \<and> 200000 - timestamp (notificationQueue queued_one ! 0) < 300000
   \<and> map message (notificationQueue (addNotification sample_notif_env queued_one (upd ''JIRA-1'') 200000))
       = [''status; status'']
   \<and> map timestamp (notificationQueue (addNotification sample_notif_env queued_one (upd ''JIRA-1'') 200000))
       = [1000]"
proof -
  have 1: "grouping (preferences NotificationManager_new)"
    by (simp add: NotificationManager_new_def)
  have 2: "queued_one = exec sample_notif_env [Add (upd ''JIRA-9'') 0, Add (upd ''JIRA-1'') 1000]
        (NotificationManager_new\<lparr>preferences := preferences NotificationManager_new\<rparr>)"
    by (simp add: queued_one_def)
  have 3: "(0::nat) < length (notificationQueue queued_one)"
    by (simp add: queued_one_eval)
  have 4: "groupId (notificationQueue queued_one ! 0) = taskKey (upd ''JIRA-1'')"
    by (simp add: queued_one_eval upd_def)
  have 5: "timestamp (notificationQueue queued_one ! 0) \<le> 200000"
    by (simp add: queued_one_eval)
  have 6: "200000 - timestamp (notificationQueue queued_one ! 0) < 300000"
    by (simp add: queued_one_eval)
  from grouping_merges_within_window [OF 1 2 3 4 5 6] 1 2 3 4 5 6
  show ?thesis
    by (simp add: queued_one_eval sample_notif_env_def createNotification_def upd_def)
qed


subsection \<open>A burst of updates of different tasks\<close>

lemma burst_Suc: "burst (Suc n) = burst n @ [Add (upd (replicate n (CHR ''x''))) 0]"
  by (simp add: burst_def)

lemma burst_entry_not_similar:
  "k \<noteq> n \<Longrightarrow> \<not> similar_to (burst_entry H n) (burst_entry H k)"
proof
  assume "k \<noteq> n" and "similar_to (burst_entry H n) (burst_entry H k)"
  then have "replicate k (CHR ''x'') = replicate n (CHR ''x'')"
    by (simp add: similar_to_def burst_entry_def createNotification_def upd_def)
  then have "length (replicate k (CHR ''x'')) = length (replicate n (CHR ''x''))"
    by (rule arg_cong)
  with \<open>k \<noteq> n\<close> show False by simp
qed

lemma exec_burst:
  "exec H (burst (Suc n)) NotificationManager_new =
     \<lparr>notificationQueue = map (burst_entry H) [1..<Suc n], isProcessing = True,
      preferences = \<lparr>enabled = True, sound = False, grouping = True\<rparr>,
      presented = [burst_entry H 0]\<rparr>"
proof (induction n)
  case 0
  show ?case
    by (simp add: burst_def exec_def addNotification_def tryGroupNotification_def
        push_and_process_def processQueue_def processQueue_loop_def
        NotificationManager_new_def burst_entry_def Let_def)
next
  case (Suc n)
  let ?nm = "exec H (burst (Suc n)) NotificationManager_new"
  have none: "findIndex (similar_to (createNotification H (upd (replicate (Suc n) (CHR ''x''))) 0))
                (notificationQueue ?nm) = None"
    unfolding findIndex_None Suc.IH
    using burst_entry_not_similar [of _ "Suc n" H]
    by (auto simp: burst_entry_def)
  have "exec H (burst (Suc (Suc n))) NotificationManager_new
          = addNotification H ?nm (upd (replicate (Suc n) (CHR ''x''))) 0"
    by (simp add: burst_Suc [of "Suc n"] exec_snoc)
  also have "\<dots> = push_and_process ?nm (burst_entry H (Suc n))"
    using none by (simp add: addNotification_push burst_entry_def)
  also have "\<dots> = ?nm\<lparr>notificationQueue := notificationQueue ?nm @ [burst_entry H (Suc n)]\<rparr>"
    by (simp add: Suc.IH push_and_process_def)
  finally show ?case by (simp add: Suc.IH)
qed

text \<open>
  Claim C7, as stated, bounds the queue at 100 entries. The source has no bound and no
  eviction: after the updates of 102 different tasks in one pause of the drain, the
  first is being presented and the other 101 are in the queue.
\<close>

theorem queue_bound_counterexample:
  "length (notificationQueue (exec sample_notif_env (burst 102) NotificationManager_new)) = 101
   \<and> \<not> length (notificationQueue (exec sample_notif_env (burst 102) NotificationManager_new)) \<le> 100"
  using exec_burst [of sample_notif_env 101] by simp

text \<open>
  Claim C7, amended. The queue is not bounded and no call of \<open>addNotification\<close> evicts.
  A call that does not merge puts its entry at the end of the queue, whatever the length
  of the queue, and keeps every entry that was there, while a drain is running or
  notifications are disabled; otherwise it starts the drain, which takes the head of the
  queue to the presentation. The updates of \<open>n + 1\<close> different tasks in one pause of the
  drain leave \<open>n\<close> entries in the queue, for every \<open>n\<close>.
\<close>

theorem enqueue_appends_without_eviction:
  assumes "\<not> grouping (preferences nm)
           \<or> findIndex (similar_to (createNotification H u now)) (notificationQueue nm) = None"
  shows "(isProcessing nm \<or> \<not> enabled (preferences nm) \<longrightarrow>
            notificationQueue (addNotification H nm u now)
              = notificationQueue nm @ [createNotification H u now]
            \<and> presented (addNotification H nm u now) = presented nm)
       \<and> (\<not> isProcessing nm \<and> enabled (preferences nm) \<longrightarrow>
            notificationQueue (addNotification H nm u now)
              = tl (notificationQueue nm @ [createNotification H u now])
            \<and> presented (addNotification H nm u now)
              = presented nm @ [hd (notificationQueue nm @ [createNotification H u now])])
       \<and> length (notificationQueue (exec H (burst (Suc n)) NotificationManager_new)) = n"
  using assms
  by (simp add: addNotification_push push_and_process_queue push_and_process_presented
      exec_burst)

theorem enqueue_appends_without_eviction_witness:
  "findIndex (similar_to (createNotification sample_notif_env (upd ''JIRA-2'') 2000))
      (notificationQueue queued_one) = None
   \<and> isProcessing queued_one
   \<and> map n_taskKey (notificationQueue (addNotification sample_notif_env queued_one (upd ''JIRA-2'') 2000))
       = [''JIRA-1'', ''JIRA-2'']
   \<and> length (notificationQueue (exec sample_notif_env (burst (Suc 150)) NotificationManager_new)) = 150"
proof -
  have 1: "findIndex (similar_to (createNotification sample_notif_env (upd ''JIRA-2'') 2000))
      (notificationQueue queued_one) = None"
    by (simp add: queued_one_eval similar_to_def createNotification_def upd_def)
  have 2: "isProcessing queued_one"
    by (simp add: queued_one_eval)
  from enqueue_appends_without_eviction [OF disjI2, OF 1, of 150] 1 2
  show ?thesis
    by (simp add: queued_one_eval createNotification_def upd_def)
qed

subsection \<open>The frame of a merge\<close>



section \<open>Properties of the task manager\<close>

lemma map_of_saveTask: "map_of (saveTask taskId t store) = (map_of store)(taskId \<mapsto> t)"
  by (induction store) auto

lemma keys_saveTask:
  "map_of store taskId = Some t0 \<Longrightarrow> map fst (saveTask taskId t store) = map fst store"
  by (induction store) (auto split: if_splits)

lemma getTaskInterval_cong:
  assumes "pollingInterval pm' = pollingInterval pm"
    and "lastUpdateTimes pm' taskId = lastUpdateTimes pm taskId"
    and "errorCount_or_0 pm' taskId = errorCount_or_0 pm taskId"
  shows "getTaskInterval pm' taskId now = getTaskInterval pm taskId now"
  unfolding getTaskInterval_def assms by simp

lemma handleError_registered:
  assumes "map_of (storageManager tm) taskId = Some t"
  shows "handleError tm taskId e now =
     tm\<lparr>pollingManager := (pollingManager tm)\<lparr>errorCounts :=
            (errorCounts (pollingManager tm))(taskId \<mapsto> errorCount_or_0 (pollingManager tm) taskId + 1)\<rparr>,
        storageManager := saveTask taskId
            (t\<lparr>consecutiveErrorCount := errorCount_or_0 (pollingManager tm) taskId + 1\<rparr>)
            (storageManager tm),
        timers := timers tm @
          [(taskId, t\<lparr>consecutiveErrorCount := errorCount_or_0 (pollingManager tm) taskId + 1\<rparr>,
            getTaskInterval ((pollingManager tm)\<lparr>errorCounts :=
               (errorCounts (pollingManager tm))(taskId \<mapsto> errorCount_or_0 (pollingManager tm) taskId + 1)\<rparr>)
              taskId now)]\<rparr>"
  using assms by (simp add: handleError_def Let_def)

lemma monitor_fetch_error:
  assumes "fst (fetchTaskXML (xml E) (xmlManager tm) (url task)) = Inl e"
  shows "monitor E tm taskId task now =
     handleError (tm\<lparr>xmlManager := snd (fetchTaskXML (xml E) (xmlManager tm) (url task))\<rparr>)
       taskId e now"
  using assms by (cases "fetchTaskXML (xml E) (xmlManager tm) (url task)") (simp add: monitor_def)

text \<open>
  Claim C8. A cycle of a registered task whose fetch or parse fails ends in the \<open>catch\<close>
  block of \<open>monitor\<close>: the error count of the task is one more than before, the persisted
  task carries the new count, a timer for the next cycle of the task is pending, with the
  backoff delay of the new count, and no task has left the store or \<open>activeTasks\<close>; the
  counts and persisted records of the other tasks are as they were. The increment, the
  persisting and the timer are the work of \<open>handleError\<close>, modelled from the
  specification.
\<close>

theorem failing_cycle_continues:
  assumes "fst (fetchTaskXML (xml E) (xmlManager tm) (url task)) = Inl e"
    and "map_of (storageManager tm) taskId = Some t"
    and "k = errorCount_or_0 (pollingManager tm) taskId + 1"
  shows "errorCount_or_0 (pollingManager (monitor E tm taskId task now)) taskId = k
       \<and> map_of (storageManager (monitor E tm taskId task now)) taskId
           = Some (t\<lparr>consecutiveErrorCount := k\<rparr>)
       \<and> map fst (storageManager (monitor E tm taskId task now)) = map fst (storageManager tm)
       \<and> activeTasks (monitor E tm taskId task now) = activeTasks tm
       \<and> timers (monitor E tm taskId task now)
           = timers tm @ [(taskId, t\<lparr>consecutiveErrorCount := k\<rparr>,
                           min (pollingInterval (pollingManager tm) * 2 ^ k) 900000)]
       \<and> (\<forall>j. j \<noteq> taskId \<longrightarrow>
            map_of (storageManager (monitor E tm taskId task now)) j = map_of (storageManager tm) j
            \<and> errorCounts (pollingManager (monitor E tm taskId task now)) j
                = errorCounts (pollingManager tm) j)"
proof -
  let ?tm1 = "tm\<lparr>xmlManager := snd (fetchTaskXML (xml E) (xmlManager tm) (url task))\<rparr>"
  have reg: "map_of (storageManager ?tm1) taskId = Some t"
    using assms(2) by simp
  have m: "monitor E tm taskId task now = handleError ?tm1 taskId e now"
    using assms(1) by (rule monitor_fetch_error)
  show ?thesis
    unfolding m handleError_registered [OF reg]
    using assms(2,3)
    by (simp add: map_of_saveTask keys_saveTask errorCount_or_0_def getTaskInterval_def)
qed


lemma added_one_eval:
  "added_one =
     \<lparr>pollingManager = PollingManager_new, xmlManager = XMLManager_new,
      notificationManager = NotificationManager_new,
      storageManager =
        [(''JIRA-1'', \<lparr>url = ''browse/JIRA-1'', added = 100, lastCheck = None,
            task_status = ''active'', lastChange = None, snapshot = None,
            consecutiveErrorCount = 0\<rparr>)],
      activeTasks = Map.empty,
      timers =
        [(''JIRA-1'', \<lparr>url = ''browse/JIRA-1'', added = 100, lastCheck = None,
            task_status = ''active'', lastChange = None, snapshot = None,
            consecutiveErrorCount = 0\<rparr>, 0)]\<rparr>"
  by (simp add: added_one_def addTask_def sample_tm_env_def TaskManager_new_def
      startMonitoring_def Let_def)

lemma sample_fetch_fails:
  "fst (fetchTaskXML (xml sample_tm_env) xm u) = Inl NetworkError"
  by (simp add: fetchTaskXML_def sample_tm_env_def sample_xml_env_def)

theorem failing_cycle_continues_witness:
  "fst (fetchTaskXML (xml sample_tm_env) (xmlManager (added_one\<lparr>timers := []\<rparr>))
          (url (fst (snd (hd (timers added_one)))))) = Inl NetworkError
   \<and> map_of (storageManager (added_one\<lparr>timers := []\<rparr>)) ''JIRA-1''
       = Some (fst (snd (hd (timers added_one))))
   \<and> errorCount_or_0 (pollingManager (added_one\<lparr>timers := []\<rparr>)) ''JIRA-1'' + 1 = 1
   \<and> errorCount_or_0 (pollingManager (fire sample_tm_env added_one 200)) ''JIRA-1'' = 1
   \<and> map fst (storageManager (fire sample_tm_env added_one 200)) = [''JIRA-1'']
   \<and> map (\<lambda>(taskId, t, delay). (taskId, consecutiveErrorCount t, delay))
        (timers (fire sample_tm_env added_one 200)) = [(''JIRA-1'', 1, 60000)]"
proof -
  let ?task = "fst (snd (hd (timers added_one)))"
  let ?tm = "added_one\<lparr>timers := []\<rparr>"
  have 1: "fst (fetchTaskXML (xml sample_tm_env) (xmlManager ?tm) (url ?task)) = Inl NetworkError"
    by (rule sample_fetch_fails)
  have 2: "map_of (storageManager ?tm) ''JIRA-1'' = Some ?task"
    by (simp add: added_one_eval)
  have 3: "1 = errorCount_or_0 (pollingManager ?tm) ''JIRA-1'' + 1"
    by (simp add: added_one_eval PollingManager_new_def errorCount_or_0_def)
  have f: "fire sample_tm_env added_one 200 = monitor sample_tm_env ?tm ''JIRA-1'' ?task 200"
    by (simp add: fire_def added_one_eval)
  from failing_cycle_continues [OF 1 2 3, of 200] 1 2 3 show ?thesis
    unfolding f by (simp add: added_one_eval PollingManager_new_def)
qed

subsection \<open>The persisted records agree with the running state\<close>

lemma keys_saveTask_set: "fst ` set (saveTask k t store) = insert k (fst ` set store)"
  by (simp add: dom_map_of_conv_image_fst [symmetric] map_of_saveTask)

lemma distinct_saveTask:
  "distinct (map fst store) \<Longrightarrow> distinct (map fst (saveTask k t store))"
  by (induction store) (auto simp: keys_saveTask_set)

lemma fetchTaskXML_error_cache:
  assumes "\<forall>u e xm. cache (handleFetchError X u e xm) = cache xm"
    and "fetchTaskXML X xm taskUrl = (Inl e, xm')"
  shows "cache xm' = cache xm"
  using assms
  by (auto simp: fetchTaskXML_def processXMLData_def Let_def
      split: sum.splits if_splits prod.splits)

lemma fetchTaskXML_ok_cache:
  assumes "fetchTaskXML X xm taskUrl = (Inr r, xm')"
  shows "cache xm' = (if changed r then (cache xm)(taskUrl \<mapsto> data r) else cache xm)"
  using assms
  by (auto simp: fetchTaskXML_def processXMLData_def Let_def
      split: sum.splits if_splits prod.splits)

lemma tm_inv_env:
  "extractTaskId E' = extractTaskId E \<Longrightarrow> tm_inv E' tm = tm_inv E tm"
  by (simp add: tm_inv_def)

lemma tm_invD:
  assumes "tm_inv E tm"
  shows "distinct (map fst (storageManager tm))"
    and "\<And>k t. map_of (storageManager tm) k = Some t \<Longrightarrow> k = extractTaskId E (url t)"
    and "\<And>k t. map_of (storageManager tm) k = Some t \<Longrightarrow> task_status t = ''active''"
    and "\<And>k task d. (k, task, d) \<in> set (timers tm) \<Longrightarrow>
           k = extractTaskId E (url task) \<and> map_of (storageManager tm) k \<noteq> None"
    and "\<And>u td. cache (xmlManager tm) u = Some td \<Longrightarrow>
           map_of (storageManager tm) (extractTaskId E u) \<noteq> None"
    and "\<And>k. map_of (storageManager tm) k = None \<Longrightarrow>
           errorCounts (pollingManager tm) k = None
           \<and> lastUpdateTimes (pollingManager tm) k = None"
    and "pollingInterval (pollingManager tm) = 30000"
  using assms unfolding tm_inv_def by blast+

lemma tm_invI:
  assumes "distinct (map fst (storageManager tm))"
    and "\<And>k t. map_of (storageManager tm) k = Some t \<Longrightarrow> k = extractTaskId E (url t)"
    and "\<And>k t. map_of (storageManager tm) k = Some t \<Longrightarrow> task_status t = ''active''"
    and "\<And>k task d. (k, task, d) \<in> set (timers tm) \<Longrightarrow>
           k = extractTaskId E (url task) \<and> map_of (storageManager tm) k \<noteq> None"
    and "\<And>u td. cache (xmlManager tm) u = Some td \<Longrightarrow>
           map_of (storageManager tm) (extractTaskId E u) \<noteq> None"
    and "\<And>k. map_of (storageManager tm) k = None \<Longrightarrow>
           errorCounts (pollingManager tm) k = None
           \<and> lastUpdateTimes (pollingManager tm) k = None"
    and "pollingInterval (pollingManager tm) = 30000"
  shows "tm_inv E tm"
  unfolding tm_inv_def
  using assms by (simp del: map_of_eq_Some_iff) blast

lemma tm_inv_timers_subset:
  assumes "tm_inv E tm" and "set ts \<subseteq> set (timers tm)"
  shows "tm_inv E (tm\<lparr>timers := ts\<rparr>)"
proof (rule tm_invI)
  fix k task d assume "(k, task, d) \<in> set (timers (tm\<lparr>timers := ts\<rparr>))"
  with assms(2) have "(k, task, d) \<in> set (timers tm)" by auto
  from tm_invD(4) [OF assms(1) this]
  show "k = extractTaskId E (url task) \<and> map_of (storageManager (tm\<lparr>timers := ts\<rparr>)) k \<noteq> None"
    by auto
qed (use tm_invD [OF assms(1)] in simp_all)

lemma task_ok_timers_subset:
  assumes "task_ok tm k u" and "set ts \<subseteq> set (timers tm)"
  shows "task_ok (tm\<lparr>timers := ts\<rparr>) k u"
  using assms unfolding task_ok_def in_sync_def by (simp del: map_of_eq_Some_iff) blast

text \<open>One operation on a task keeps what holds of every state.\<close>

lemma tm_inv_task_step:
  assumes "tm_inv E tm" and "task_step tm tm' j u t'"
    and "j = extractTaskId E u" and "j = extractTaskId E (url t')"
    and "task_status t' = ''active''"
  shows "tm_inv E tm'"
proof -
  note inv = tm_invD [OF assms(1)]
  from assms(2) have st: "map_of (storageManager tm') = (map_of (storageManager tm))(j \<mapsto> t')"
    and keys: "distinct (map fst (storageManager tm'))"
    and cache: "\<And>v. v \<noteq> u \<Longrightarrow> cache (xmlManager tm') v = cache (xmlManager tm) v"
    and pm: "\<And>i. i \<noteq> j \<Longrightarrow>
               errorCounts (pollingManager tm') i = errorCounts (pollingManager tm) i
               \<and> lastUpdateTimes (pollingManager tm') i = lastUpdateTimes (pollingManager tm) i"
    and iv: "pollingInterval (pollingManager tm') = pollingInterval (pollingManager tm)"
    using inv(1) unfolding task_step_def by blast+
  from assms(2) obtain task' d where
    ti: "timers tm' = timers tm @ [(j, task', d)]" "url task' = u \<or> url task' = url t'"
    unfolding task_step_def by blast
  have stored: "(i = j \<and> ti = t') \<or> (i \<noteq> j \<and> map_of (storageManager tm) i = Some ti)"
    if "map_of (storageManager tm') i = Some ti" for i ti
    using that by (auto simp: st split: if_splits)
  have kept: "map_of (storageManager tm') i \<noteq> None"
    if "map_of (storageManager tm) i \<noteq> None" for i
    using that by (simp add: st)
  show ?thesis
  proof (rule tm_invI)
    show "distinct (map fst (storageManager tm'))" by (rule keys)
  next
    show "pollingInterval (pollingManager tm') = 30000"
      using inv(7) iv by simp
  next
    fix i ti assume "map_of (storageManager tm') i = Some ti"
    from stored [OF this] show "i = extractTaskId E (url ti)"
      using assms(4) inv(2) [of i ti] by auto
  next
    fix i ti assume "map_of (storageManager tm') i = Some ti"
    from stored [OF this] show "task_status ti = ''active''"
      using assms(5) inv(3) [of i ti] by auto
  next
    fix i task d' assume "(i, task, d') \<in> set (timers tm')"
    then consider "(i, task, d') \<in> set (timers tm)" | "i = j" "task = task'"
      by (auto simp: ti(1))
    then show "i = extractTaskId E (url task) \<and> map_of (storageManager tm') i \<noteq> None"
    proof cases
      case 1
      from inv(4) [OF this] kept [of i] show ?thesis by auto
    next
      case 2
      with ti(2) assms(3,4) show ?thesis by (auto simp: st)
    qed
  next
    fix v td assume c: "cache (xmlManager tm') v = Some td"
    show "map_of (storageManager tm') (extractTaskId E v) \<noteq> None"
    proof (cases "v = u")
      case True
      with assms(3) show ?thesis by (simp add: st)
    next
      case False
      with c cache [of v] have "cache (xmlManager tm) v = Some td" by simp
      from inv(5) [OF this] kept show ?thesis by blast
    qed
  next
    fix i assume "map_of (storageManager tm') i = None"
    then have "i \<noteq> j" "map_of (storageManager tm) i = None"
      by (auto simp: st split: if_splits)
    with inv(6) [of i] pm [of i] show "errorCounts (pollingManager tm') i = None
        \<and> lastUpdateTimes (pollingManager tm') i = None"
      by simp
  qed
qed

text \<open>One operation on a task leaves the tasks with other ids and URLs in order.\<close>

lemma task_ok_task_step_other:
  assumes "task_ok tm k w" and "task_step tm tm' j u t'" and "j \<noteq> k" and "u \<noteq> w"
  shows "task_ok tm' k w"
proof -
  from assms(1) obtain t where sync: "in_sync tm k t" and ut: "url t = w"
    and tis: "\<And>i task d. (i, task, d) \<in> set (timers tm) \<Longrightarrow> i = k \<Longrightarrow> url task = w"
    unfolding task_ok_def by blast
  from assms(2) have st: "map_of (storageManager tm') = (map_of (storageManager tm))(j \<mapsto> t')"
    and cache: "\<And>v. v \<noteq> u \<Longrightarrow> cache (xmlManager tm') v = cache (xmlManager tm) v"
    and pm: "\<And>i. i \<noteq> j \<Longrightarrow>
               errorCounts (pollingManager tm') i = errorCounts (pollingManager tm) i
               \<and> lastUpdateTimes (pollingManager tm') i = lastUpdateTimes (pollingManager tm) i"
    and iv: "pollingInterval (pollingManager tm') = pollingInterval (pollingManager tm)"
    unfolding task_step_def by blast+
  from assms(2) obtain task' d where ti: "timers tm' = timers tm @ [(j, task', d)]"
    unfolding task_step_def by blast
  have "in_sync tm' k t"
    using sync ut assms(3,4) pm [of k] cache [of w] iv
    by (simp add: in_sync_def st errorCount_or_0_def)
  moreover have "url task = w" if "(i, task, d') \<in> set (timers tm')" "i = k" for i task d'
    using that tis assms(3) by (auto simp: ti)
  ultimately show ?thesis
    unfolding task_ok_def using ut by blast
qed

text \<open>What \<open>handleError\<close>, \<open>handleChanges\<close> and \<open>monitor\<close> do to their task.\<close>

lemma handleError_task_step:
  assumes "map_of (storageManager tm) j = Some tj"
  shows "task_step tm (handleError tm j e now) j u
           (tj\<lparr>consecutiveErrorCount := errorCount_or_0 (pollingManager tm) j + 1\<rparr>)"
  unfolding task_step_def handleError_registered [OF assms]
  by (simp add: map_of_saveTask distinct_saveTask)

lemma monitor_task_step:
  assumes "handleChanges E = handleChanges_model H"
    and "\<forall>u e xm. cache (handleFetchError (xml E) u e xm) = cache xm"
    and "map_of (storageManager tm) j = Some tj"
  shows "\<exists>t'. task_step tm (monitor E tm j task now) j (url task) t'
            \<and> url t' = url tj \<and> task_status t' = task_status tj
            \<and> (url tj = url task \<and> in_sync tm j tj \<longrightarrow> in_sync (monitor E tm j task now) j t')"
proof (cases "fetchTaskXML (xml E) (xmlManager tm) (url task)")
  case (Pair res xm')
  show ?thesis
  proof (cases res)
    case (Inl e)
    let ?tm1 = "tm\<lparr>xmlManager := xm'\<rparr>"
    let ?t = "tj\<lparr>consecutiveErrorCount := errorCount_or_0 (pollingManager tm) j + 1\<rparr>"
    from Pair Inl assms(2) have c: "cache xm' = cache (xmlManager tm)"
      by (auto dest: fetchTaskXML_error_cache)
    have m: "monitor E tm j task now = handleError ?tm1 j e now"
      using Pair Inl by (simp add: monitor_def)
    have reg: "map_of (storageManager ?tm1) j = Some tj"
      using assms(3) by simp
    have "task_step tm (monitor E tm j task now) j (url task) ?t"
      using handleError_task_step [OF reg, of e now "url task"] c
      unfolding m task_step_def by simp
    moreover have "in_sync (monitor E tm j task now) j ?t" if "in_sync tm j tj"
      using that c unfolding m handleError_registered [OF reg]
      by (simp add: in_sync_def map_of_saveTask errorCount_or_0_def)
    ultimately show ?thesis by (intro exI [of _ ?t]) simp
  next
    case (Inr r)
    with Pair have c: "cache xm' = (if changed r then (cache (xmlManager tm))(url task \<mapsto> data r)
                                    else cache (xmlManager tm))"
      by (auto dest: fetchTaskXML_ok_cache)
    show ?thesis
    proof (cases "changed r")
      case False
      have m: "monitor E tm j task now
                 = tm\<lparr>xmlManager := xm',
                      timers := timers tm @ [(j, task, getTaskInterval (pollingManager tm) j now)]\<rparr>"
        using Pair Inr False by (simp add: monitor_def Let_def)
      have same: "(map_of (storageManager tm))(j \<mapsto> tj) = map_of (storageManager tm)"
        using assms(3) by (simp add: map_upd_triv)
      have "task_step tm (monitor E tm j task now) j (url task) tj"
        using c False same unfolding m task_step_def by simp
      moreover have "in_sync (monitor E tm j task now) j tj" if "in_sync tm j tj"
        using that c False unfolding m by (simp add: in_sync_def)
      ultimately show ?thesis by (intro exI [of _ tj]) simp
    next
      case True
      let ?t = "tj\<lparr>lastCheck := Some now, lastChange := Some now, snapshot := Some (data r),
                   consecutiveErrorCount := 0\<rparr>"
      let ?pm = "(pollingManager tm)\<lparr>
                   lastUpdateTimes := (lastUpdateTimes (pollingManager tm))(j \<mapsto> now),
                   errorCounts := (errorCounts (pollingManager tm))(j \<mapsto> 0)\<rparr>"
      have hc: "handleChanges E j r now (tm\<lparr>xmlManager := xm'\<rparr>)
                  = (None, tm\<lparr>xmlManager := xm', pollingManager := ?pm,
                       notificationManager := addNotification H (notificationManager tm)
                         \<lparr>taskKey = j, changes_type = None\<rparr> now,
                       storageManager := saveTask j ?t (storageManager tm)\<rparr>)"
        using assms(1,3) by (simp add: handleChanges_model_def Let_def)
      have m: "monitor E tm j task now
                 = tm\<lparr>xmlManager := xm', pollingManager := ?pm,
                      notificationManager := addNotification H (notificationManager tm)
                         \<lparr>taskKey = j, changes_type = None\<rparr> now,
                      storageManager := saveTask j ?t (storageManager tm),
                      timers := timers tm @ [(j, task, getTaskInterval ?pm j now)]\<rparr>"
        using Pair Inr True hc by (simp add: monitor_def Let_def)
      have "task_step tm (monitor E tm j task now) j (url task) ?t"
        using c True unfolding m task_step_def
        by (simp add: map_of_saveTask distinct_saveTask)
      moreover have "in_sync (monitor E tm j task now) j ?t"
        if "url tj = url task" "in_sync tm j tj"
        using that c True unfolding m
        by (simp add: in_sync_def map_of_saveTask errorCount_or_0_def)
      ultimately show ?thesis by (intro exI [of _ ?t]) simp
    qed
  qed
qed

lemma addTask_task_step:
  assumes "validateTask E u = None"
  shows "task_step tm (snd (addTask E tm u now)) (extractTaskId E u) u
           \<lparr>url = u, added = now, lastCheck = None, task_status = ''active'',
            lastChange = None, snapshot = None, consecutiveErrorCount = 0\<rparr>"
  using assms unfolding task_step_def
  by (simp add: addTask_def startMonitoring_def Let_def map_of_saveTask distinct_saveTask)

lemma tm_inv_addTask:
  assumes "tm_inv E tm"
  shows "tm_inv E (snd (addTask E tm u now))"
proof (cases "validateTask E u")
  case None
  from assms addTask_task_step [OF None] show ?thesis
    by (rule tm_inv_task_step) simp_all
next
  case (Some e)
  with assms show ?thesis by (simp add: addTask_def)
qed

lemma task_ok_addTask_other:
  assumes "task_ok tm k w" and "k = extractTaskId E w" and "extractTaskId E u \<noteq> k"
  shows "task_ok (snd (addTask E tm u now)) k w"
proof (cases "validateTask E u")
  case None
  from assms(2,3) have "u \<noteq> w" by auto
  with assms(1) addTask_task_step [OF None] assms(3) show ?thesis
    by (rule task_ok_task_step_other)
next
  case (Some e)
  with assms show ?thesis by (simp add: addTask_def)
qed

lemma task_ok_addTask_new:
  assumes "tm_inv E tm" and "map_of (storageManager tm) (extractTaskId E u) = None"
    and "validateTask E u = None"
  shows "task_ok (snd (addTask E tm u now)) (extractTaskId E u) u"
proof -
  let ?k = "extractTaskId E u"
  let ?t = "\<lparr>url = u, added = now, lastCheck = None, task_status = ''active'',
             lastChange = None, snapshot = None, consecutiveErrorCount = 0\<rparr>"
  note inv = tm_invD [OF assms(1)]
  have tm': "snd (addTask E tm u now)
               = tm\<lparr>storageManager := saveTask ?k ?t (storageManager tm),
                    timers := timers tm @ [(?k, ?t, 0)]\<rparr>"
    using assms(3) by (simp add: addTask_def startMonitoring_def Let_def)
  have c: "cache (xmlManager tm) u = None"
  proof (cases "cache (xmlManager tm) u")
    case (Some td)
    from inv(5) [OF this] assms(2) show ?thesis by simp
  qed simp
  have "in_sync (snd (addTask E tm u now)) ?k ?t"
    using c inv(6) [OF assms(2)] inv(7)
    by (simp add: tm' in_sync_def map_of_saveTask errorCount_or_0_def)
  moreover have "url task = u"
    if "(i, task, d) \<in> set (timers (snd (addTask E tm u now)))" "i = ?k" for i task d
  proof -
    from that consider "(?k, task, d) \<in> set (timers tm)" | "task = ?t"
      by (auto simp: tm')
    then show ?thesis
    proof cases
      case 1
      from inv(4) [OF this] assms(2) show ?thesis by simp
    next
      case 2
      then show ?thesis by simp
    qed
  qed
  ultimately show ?thesis
    unfolding task_ok_def by (intro conjI exI [of _ ?t]) auto
qed

lemma task_ok_monitor:
  assumes "tm_inv E tm" and "task_ok tm k w" and "k = extractTaskId E w"
    and "j = extractTaskId E (url task)" and "map_of (storageManager tm) j = Some tj"
    and "j = k \<longrightarrow> url task = w"
    and "handleChanges E = handleChanges_model H"
    and "\<forall>u e xm. cache (handleFetchError (xml E) u e xm) = cache xm"
  shows "task_ok (monitor E tm j task now) k w"
proof -
  let ?tm' = "monitor E tm j task now"
  from monitor_task_step [OF assms(7,8,5), of task now] obtain t' where
    step: "task_step tm ?tm' j (url task) t'" and ut': "url t' = url tj"
    and sync': "url tj = url task \<and> in_sync tm j tj \<longrightarrow> in_sync ?tm' j t'"
    by blast
  show ?thesis
  proof (cases "j = k")
    case False
    with assms(3,4) have "url task \<noteq> w" by auto
    with assms(2) step False show ?thesis
      by (rule task_ok_task_step_other)
  next
    case True
    from assms(2) obtain t where sync: "in_sync tm k t" and ut: "url t = w"
      and tis: "\<And>i task d. (i, task, d) \<in> set (timers tm) \<Longrightarrow> i = k \<Longrightarrow> url task = w"
      unfolding task_ok_def by blast
    from sync assms(5) True have tj: "tj = t" by (simp add: in_sync_def)
    from assms(6) True have w: "url task = w" by simp
    from sync' sync tj ut w True have s': "in_sync ?tm' k t'" by simp
    from step obtain task' d where
      ti: "timers ?tm' = timers tm @ [(j, task', d)]" "url task' = url task \<or> url task' = url t'"
      unfolding task_step_def by blast
    have "url task'' = w" if "(i, task'', d') \<in> set (timers ?tm')" "i = k" for i task'' d'
      using that tis ti ut' tj ut w by auto
    with s' ut' tj ut show ?thesis
      unfolding task_ok_def by (intro conjI exI [of _ t']) auto
  qed
qed


subsection \<open>Restart\<close>

lemma set_Object_entries: "set (Object_entries obj) = set obj"
  by (auto simp: Object_entries_def)

lemma distinct_Object_entries:
  assumes "distinct (map fst obj)"
  shows "distinct (map fst (Object_entries obj))"
proof -
  from assms have d: "distinct obj" and i: "inj_on fst (set obj)"
    by (simp_all add: distinct_map)
  from d have "distinct (Object_entries obj)"
    by (auto simp: Object_entries_def)
  with i show ?thesis
    by (simp add: distinct_map set_Object_entries)
qed

lemma Object_entries_index_keys_first:
  "Object_entries [(''10'', a), (''JIRA-1'', b), (''2'', c), (''007'', d)]
     = [(''2'', c), (''10'', a), (''JIRA-1'', b), (''007'', d)]"
  by (simp add: Object_entries_def array_index_def nat_of_digits_def)

lemma resumeTask_self:
  assumes "task_status t = ''active''"
  shows "activeTasks (resumeTask tm taskId t now) taskId = Some t
       \<and> cache (xmlManager (resumeTask tm taskId t now)) (url t) = snapshot t
       \<and> errorCounts (pollingManager (resumeTask tm taskId t now)) taskId
           = Some (consecutiveErrorCount t)
       \<and> lastUpdateTimes (pollingManager (resumeTask tm taskId t now)) taskId = lastChange t
       \<and> pollingInterval (pollingManager (resumeTask tm taskId t now))
           = pollingInterval (pollingManager tm)
       \<and> (taskId, t, resume_delay (lastCheck t)
             (getTaskInterval (pollingManager (resumeTask tm taskId t now)) taskId now) now)
           \<in> set (timers (resumeTask tm taskId t now))"
  using assms by (simp add: resumeTask_def Let_def)

lemma resumeTask_other:
  assumes "k \<noteq> taskId" and "url v \<noteq> u"
  shows "activeTasks (resumeTask tm k v now) taskId = activeTasks tm taskId
       \<and> cache (xmlManager (resumeTask tm k v now)) u = cache (xmlManager tm) u
       \<and> errorCounts (pollingManager (resumeTask tm k v now)) taskId
           = errorCounts (pollingManager tm) taskId
       \<and> lastUpdateTimes (pollingManager (resumeTask tm k v now)) taskId
           = lastUpdateTimes (pollingManager tm) taskId
       \<and> pollingInterval (pollingManager (resumeTask tm k v now))
           = pollingInterval (pollingManager tm)
       \<and> set (timers tm) \<subseteq> set (timers (resumeTask tm k v now))"
  using assms by (auto simp: resumeTask_def Let_def)

lemma fold_resumeTask_interval:
  "pollingInterval (pollingManager (fold (\<lambda>(k, v) tm'. resumeTask tm' k v now) es tm))
     = pollingInterval (pollingManager tm)"
  by (induction es arbitrary: tm) (auto simp: resumeTask_def Let_def)

lemma fold_resumeTask_storage:
  "storageManager (fold (\<lambda>(k, v) tm'. resumeTask tm' k v now) es tm) = storageManager tm"
  by (induction es arbitrary: tm) (auto simp: resumeTask_def Let_def)

lemma fold_resumeTask:
  assumes "(taskId, t) \<in> set es" and "distinct (map fst es)"
    and "\<forall>(k, v) \<in> set es. url v = url t \<longrightarrow> k = taskId"
    and "task_status t = ''active''"
  shows "resumed (fold (\<lambda>(k, v) tm'. resumeTask tm' k v now) es tm) taskId t now"
  using assms(1-3)
proof (induction es rule: rev_induct)
  case Nil
  then show ?case by simp
next
  case (snoc e es)
  obtain k v where e: "e = (k, v)" by (cases e)
  let ?F = "fold (\<lambda>(k, v) tm'. resumeTask tm' k v now) es tm"
  show ?case
  proof (cases "k = taskId")
    case True
    with snoc.prems e have "v = t"
      by (auto simp: rev_image_eqI)
    with True e assms(4) resumeTask_self [where t = t and tm = ?F and taskId = taskId and now = now]
    show ?thesis
      by (simp add: resumed_def)
  next
    case False
    with snoc.prems e have mem: "(taskId, t) \<in> set es" by auto
    from False snoc.prems e have u: "url v \<noteq> url t" by auto
    from snoc.IH [OF mem] snoc.prems have IH: "resumed ?F taskId t now" by auto
    note other = resumeTask_other [OF False u, where tm = ?F and now = now]
    have same: "getTaskInterval (pollingManager (resumeTask ?F k v now)) taskId now
                  = getTaskInterval (pollingManager ?F) taskId now"
      using other by (intro getTaskInterval_cong) (simp_all add: errorCount_or_0_def)
    from IH other same
    have "resumed (resumeTask ?F k v now) taskId t now"
      unfolding resumed_def by auto
    with e show ?thesis by simp
  qed
qed

lemma resumeTask_facts:
  "set (timers (resumeTask tm k v now)) \<subseteq> insert (k, v,
       resume_delay (lastCheck v)
         (getTaskInterval (pollingManager (resumeTask tm k v now)) k now) now) (set (timers tm))"
  "cache (xmlManager (resumeTask tm k v now)) u = Some td \<Longrightarrow>
     cache (xmlManager tm) u = Some td \<or> url v = u"
  "i \<noteq> k \<Longrightarrow> errorCounts (pollingManager (resumeTask tm k v now)) i
                   = errorCounts (pollingManager tm) i
               \<and> lastUpdateTimes (pollingManager (resumeTask tm k v now)) i
                   = lastUpdateTimes (pollingManager tm) i"
  by (auto simp: resumeTask_def Let_def split: if_splits)

lemma fold_resumeTask_frame:
  "(\<forall>(j, task, d) \<in> set (timers (fold (\<lambda>(k, v) tm'. resumeTask tm' k v now) es tm)).
      (j, task, d) \<in> set (timers tm) \<or> (j, task) \<in> set es)
   \<and> (\<forall>u td. cache (xmlManager (fold (\<lambda>(k, v) tm'. resumeTask tm' k v now) es tm)) u = Some td
        \<longrightarrow> cache (xmlManager tm) u \<noteq> None \<or> u \<in> url ` snd ` set es)
   \<and> (\<forall>i. i \<notin> fst ` set es \<longrightarrow>
        errorCounts (pollingManager (fold (\<lambda>(k, v) tm'. resumeTask tm' k v now) es tm)) i
          = errorCounts (pollingManager tm) i
        \<and> lastUpdateTimes (pollingManager (fold (\<lambda>(k, v) tm'. resumeTask tm' k v now) es tm)) i
          = lastUpdateTimes (pollingManager tm) i)"
proof (induction es rule: rev_induct)
  case Nil
  show ?case by simp
next
  case (snoc e es)
  obtain k v where e: "e = (k, v)" by (cases e)
  let ?F = "fold (\<lambda>(k, v) tm'. resumeTask tm' k v now) es tm"
  from snoc.IH have
    IH1: "\<And>j task d. (j, task, d) \<in> set (timers ?F) \<Longrightarrow>
            (j, task, d) \<in> set (timers tm) \<or> (j, task) \<in> set es"
    and IH2: "\<And>u td. cache (xmlManager ?F) u = Some td \<Longrightarrow>
            cache (xmlManager tm) u \<noteq> None \<or> u \<in> url ` snd ` set es"
    and IH3: "\<And>i. i \<notin> fst ` set es \<Longrightarrow>
            errorCounts (pollingManager ?F) i = errorCounts (pollingManager tm) i
            \<and> lastUpdateTimes (pollingManager ?F) i = lastUpdateTimes (pollingManager tm) i"
    by blast+
  have F': "fold (\<lambda>(k, v) tm'. resumeTask tm' k v now) (es @ [e]) tm = resumeTask ?F k v now"
    by (simp add: e)
  show ?case
    unfolding F'
  proof (intro conjI ballI allI impI)
    fix x assume "x \<in> set (timers (resumeTask ?F k v now))"
    with resumeTask_facts(1) [of ?F k v now]
    have "fst x = k \<and> fst (snd x) = v \<or> x \<in> set (timers ?F)" by auto
    with IH1 [of "fst x" "fst (snd x)" "snd (snd x)"] e
    show "case x of (j, task, d) \<Rightarrow> (j, task, d) \<in> set (timers tm) \<or> (j, task) \<in> set (es @ [e])"
      by (auto simp: case_prod_beta)
  next
    fix u td assume "cache (xmlManager (resumeTask ?F k v now)) u = Some td"
    from resumeTask_facts(2) [OF this] IH2 [of u td] e
    show "cache (xmlManager tm) u \<noteq> None \<or> u \<in> url ` snd ` set (es @ [e])"
      by force
  next
    fix i assume "i \<notin> fst ` set (es @ [e])"
    then have "i \<noteq> k" "i \<notin> fst ` set es" using e by auto
    with resumeTask_facts(3) [of i k ?F v now] IH3 [of i]
    show "errorCounts (pollingManager (resumeTask ?F k v now)) i = errorCounts (pollingManager tm) i"
      and "lastUpdateTimes (pollingManager (resumeTask ?F k v now)) i
             = lastUpdateTimes (pollingManager tm) i"
      by simp_all
  qed
qed

lemma restart_fold:
  "restart store now
     = fold (\<lambda>(k, v) tm'. resumeTask tm' k v now) (Object_entries store) (TaskManager_new store)"
  by (simp add: restart_def initialize_def loadTasks_def TaskManager_new_def)

lemma tm_inv_restart:
  assumes "tm_inv E tm"
  shows "tm_inv E (restart (storageManager tm) now)"
proof -
  let ?store = "storageManager tm"
  let ?es = "Object_entries ?store"
  let ?tm' = "restart ?store now"
  note inv = tm_invD [OF assms]
  note frame = fold_resumeTask_frame [of now ?es "TaskManager_new ?store", folded restart_fold]
  have st: "storageManager ?tm' = ?store"
    by (simp add: restart_fold fold_resumeTask_storage TaskManager_new_def)
  have entry: "map_of ?store j = Some v" if "(j, v) \<in> set ?es" for j v
    using that inv(1) by (simp add: set_Object_entries)
  show ?thesis
  proof (rule tm_invI)
    show "distinct (map fst (storageManager ?tm'))" using inv(1) by (simp add: st)
  next
    fix k t assume "map_of (storageManager ?tm') k = Some t"
    then show "k = extractTaskId E (url t)" using inv(2) by (simp add: st)
  next
    fix k t assume "map_of (storageManager ?tm') k = Some t"
    then show "task_status t = ''active''" using inv(3) by (simp add: st)
  next
    fix k task d assume "(k, task, d) \<in> set (timers ?tm')"
    with frame have "(k, task) \<in> set ?es"
      by (auto simp: TaskManager_new_def)
    from entry [OF this] inv(2) [of k task]
    show "k = extractTaskId E (url task) \<and> map_of (storageManager ?tm') k \<noteq> None"
      by (simp add: st)
  next
    fix u td assume "cache (xmlManager ?tm') u = Some td"
    with frame have "u \<in> url ` snd ` set ?es"
      by (auto simp: TaskManager_new_def XMLManager_new_def)
    then obtain j v where jv: "(j, v) \<in> set ?es" "url v = u" by force
    from entry [OF jv(1)] inv(2) [of j v] jv(2)
    show "map_of (storageManager ?tm') (extractTaskId E u) \<noteq> None"
      by (auto simp: st)
  next
    fix k assume "map_of (storageManager ?tm') k = None"
    then have "k \<notin> fst ` set ?es"
      by (simp add: st map_of_eq_None_iff set_Object_entries)
    with frame show "errorCounts (pollingManager ?tm') k = None
        \<and> lastUpdateTimes (pollingManager ?tm') k = None"
      by (simp add: TaskManager_new_def PollingManager_new_def)
  next
    show "pollingInterval (pollingManager ?tm') = 30000"
      by (simp add: restart_fold fold_resumeTask_interval TaskManager_new_def
          PollingManager_new_def)
  qed
qed

lemma restart_resumed:
  assumes "tm_inv E tm" and "map_of (storageManager tm) k = Some t"
  shows "resumed (restart (storageManager tm) now) k t now"
proof -
  let ?store = "storageManager tm"
  let ?es = "Object_entries ?store"
  note inv = tm_invD [OF assms(1)]
  from assms(2) have mem: "(k, t) \<in> set ?es"
    by (simp add: set_Object_entries map_of_SomeD)
  have dist: "distinct (map fst ?es)"
    using inv(1) by (rule distinct_Object_entries)
  have uniq: "\<forall>(j, v) \<in> set ?es. url v = url t \<longrightarrow> j = k"
  proof (intro ballI, clarify)
    fix j v assume "(j, v) \<in> set ?es" and uv: "url v = url t"
    then have "map_of ?store j = Some v"
      using inv(1) by (simp add: set_Object_entries)
    from inv(2) [OF this] inv(2) [OF assms(2)] uv show "j = k" by simp
  qed
  from fold_resumeTask [OF mem dist uniq inv(3) [OF assms(2)], of now "TaskManager_new ?store"]
  show ?thesis
    by (simp add: restart_fold)
qed

lemma task_ok_restart:
  assumes "tm_inv E tm" and "task_ok tm k w"
  shows "task_ok (restart (storageManager tm) now) k w"
proof -
  let ?store = "storageManager tm"
  let ?es = "Object_entries ?store"
  let ?tm' = "restart ?store now"
  note inv = tm_invD [OF assms(1)]
  from assms(2) obtain t where sync: "in_sync tm k t" and ut: "url t = w"
    unfolding task_ok_def by blast
  from sync have stored: "map_of ?store k = Some t" by (simp add: in_sync_def)
  from restart_resumed [OF assms(1) stored, of now] have r: "resumed ?tm' k t now" .
  have st: "storageManager ?tm' = ?store"
    by (simp add: restart_fold fold_resumeTask_storage TaskManager_new_def)
  have iv: "pollingInterval (pollingManager ?tm') = 30000"
    by (simp add: restart_fold fold_resumeTask_interval TaskManager_new_def PollingManager_new_def)
  have "in_sync ?tm' k t"
    using r stored iv by (simp add: in_sync_def resumed_def st errorCount_or_0_def)
  moreover have "url task = w" if "(j, task, d) \<in> set (timers ?tm')" "j = k" for j task d
  proof -
    from fold_resumeTask_frame [of now ?es "TaskManager_new ?store", folded restart_fold] that
    have "(k, task) \<in> set ?es"
      by (auto simp: TaskManager_new_def)
    then have "map_of ?store k = Some task"
      using inv(1) by (simp add: set_Object_entries)
    with stored ut show ?thesis by simp
  qed
  ultimately show ?thesis
    unfolding task_ok_def using ut by blast
qed

subsection \<open>Runs of the task manager\<close>

lemma added_urls_append: "added_urls (xs @ ys) = added_urls xs @ added_urls ys"
  by (induction xs rule: added_urls.induct) simp_all

lemma adds_of_snoc_AddTask:
  "adds_of E k (evs @ [AddTask u now])
     = adds_of E k evs @ (if extractTaskId E u = k then [u] else [])"
  by (simp add: adds_of_def added_urls_append)

lemma adds_of_snoc_Cycle: "adds_of E k (evs @ [Cycle i outcome now]) = adds_of E k evs"
  by (simp add: adds_of_def added_urls_append)

lemma adds_of_Nil_iff: "adds_of E k evs = [] \<longleftrightarrow> k \<notin> extractTaskId E ` set (added_urls evs)"
  by (auto simp: adds_of_def filter_empty_conv)

lemma adds_of_single:
  assumes "adds_of E k evs = [w]"
  shows "extractTaskId E w = k" and "w \<in> set (added_urls evs)"
proof -
  have "w \<in> set (adds_of E k evs)" by (simp add: assms)
  then show "extractTaskId E w = k" and "w \<in> set (added_urls evs)"
    by (simp_all add: adds_of_def)
qed

lemma tm_run_snoc: "tm_run E (evs @ [ev]) tm = tm_step E ev (tm_run E evs tm)"
  by (simp add: tm_run_def)

lemma tm_inv_new: "tm_inv E (TaskManager_new [])"
  by (simp add: tm_inv_def TaskManager_new_def PollingManager_new_def XMLManager_new_def)

lemma task_step_keys:
  assumes "task_step tm tm' j u t'"
  shows "fst ` set (storageManager tm') = insert j (fst ` set (storageManager tm))"
proof -
  from assms have "dom (map_of (storageManager tm')) = insert j (dom (map_of (storageManager tm)))"
    unfolding task_step_def by simp
  then show ?thesis by (simp add: dom_map_of_conv_image_fst)
qed

lemma tm_run_inv:
  assumes "handleChanges E = handleChanges_model H"
    and "\<forall>u e xm. cache (handleFetchError (xml E) u e xm) = cache xm"
  shows "tm_inv E (tm_run E evs (TaskManager_new []))
       \<and> fst ` set (storageManager (tm_run E evs (TaskManager_new [])))
           \<subseteq> extractTaskId E ` set (added_urls evs)
       \<and> (adds_of E k evs = [w] \<and> validateTask E w = None \<longrightarrow>
            task_ok (tm_run E evs (TaskManager_new [])) k w)"
proof (induction evs rule: rev_induct)
  case Nil
  show ?case
    by (simp add: tm_run_def tm_inv_new adds_of_def) (simp add: TaskManager_new_def)
next
  case (snoc ev evs)
  let ?tm = "tm_run E evs (TaskManager_new [])"
  from snoc.IH have inv: "tm_inv E ?tm"
    and keys: "fst ` set (storageManager ?tm) \<subseteq> extractTaskId E ` set (added_urls evs)"
    and ok: "adds_of E k evs = [w] \<Longrightarrow> validateTask E w = None \<Longrightarrow> task_ok ?tm k w"
    by blast+
  note invD = tm_invD [OF inv]
  show ?case
  proof (cases ev)
    case (AddTask u now)
    let ?tm' = "snd (addTask E ?tm u now)"
    have step: "tm_run E (evs @ [ev]) (TaskManager_new []) = ?tm'"
      by (simp add: tm_run_snoc AddTask)
    have inv': "tm_inv E ?tm'"
      using inv by (rule tm_inv_addTask)
    have keys': "fst ` set (storageManager ?tm')
                   \<subseteq> extractTaskId E ` set (added_urls (evs @ [ev]))"
    proof (cases "validateTask E u")
      case None
      from task_step_keys [OF addTask_task_step [OF None]] keys show ?thesis
        by (auto simp: added_urls_append AddTask)
    next
      case (Some e)
      with keys show ?thesis
        by (auto simp: addTask_def added_urls_append AddTask)
    qed
    have ok': "task_ok ?tm' k w"
      if a: "adds_of E k (evs @ [ev]) = [w]" and v: "validateTask E w = None"
    proof (cases "extractTaskId E u = k")
      case True
      with a have e: "adds_of E k evs = []" and uw: "u = w"
        by (simp_all add: AddTask adds_of_snoc_AddTask)
      from e keys have "k \<notin> fst ` set (storageManager ?tm)"
        by (auto simp: adds_of_Nil_iff)
      then have "map_of (storageManager ?tm) (extractTaskId E u) = None"
        using True by (simp add: map_of_eq_None_iff)
      from task_ok_addTask_new [OF inv this] v uw True show ?thesis by simp
    next
      case False
      with a have "adds_of E k evs = [w]"
        by (simp add: AddTask adds_of_snoc_AddTask)
      from ok [OF this v] adds_of_single(1) [OF this] False show ?thesis
        by (intro task_ok_addTask_other) simp_all
    qed
    from inv' keys' ok' show ?thesis
      unfolding step by blast
  next
    case (Restart now)
    have step: "tm_run E (evs @ [ev]) (TaskManager_new []) = restart (storageManager ?tm) now"
      by (simp add: tm_run_snoc Restart)
    have st: "storageManager (restart (storageManager ?tm) now) = storageManager ?tm"
      by (simp add: restart_fold fold_resumeTask_storage TaskManager_new_def)
    have urls: "added_urls (evs @ [ev]) = added_urls evs"
      by (simp add: added_urls_append Restart)
    have adds: "adds_of E k (evs @ [ev]) = adds_of E k evs"
      by (simp add: adds_of_def urls)
    from tm_inv_restart [OF inv, of now] keys ok task_ok_restart [OF inv, of k w now]
    show ?thesis
      unfolding step urls adds st by blast
  next
    case (Cycle i outcome now)
    have urls: "added_urls (evs @ [ev]) = added_urls evs"
      by (simp add: added_urls_append Cycle)
    have adds: "adds_of E k (evs @ [ev]) = adds_of E k evs"
      by (simp add: Cycle adds_of_snoc_Cycle)
    show ?thesis
    proof (cases "i < length (timers ?tm)")
      case False
      then have "tm_run E (evs @ [ev]) (TaskManager_new []) = ?tm"
        by (simp add: tm_run_snoc Cycle)
      with snoc.IH urls adds show ?thesis by simp
    next
      case True
      obtain j task d where timer: "timers ?tm ! i = (j, task, d)"
        by (cases "timers ?tm ! i")
      let ?E = "E\<lparr>xml := (xml E)\<lparr>fetch := (\<lambda>u. outcome)\<rparr>\<rparr>"
      let ?tmr = "?tm\<lparr>timers := take i (timers ?tm) @ drop (Suc i) (timers ?tm)\<rparr>"
      let ?tm' = "monitor ?E ?tmr j task now"
      have step: "tm_run E (evs @ [ev]) (TaskManager_new []) = ?tm'"
        using True timer by (simp add: tm_run_snoc Cycle)
      from True timer have mem: "(j, task, d) \<in> set (timers ?tm)"
        by (metis nth_mem)
      from invD(4) [OF mem] obtain tj where
        j: "j = extractTaskId E (url task)" and tj: "map_of (storageManager ?tm) j = Some tj"
        by auto
      have sub: "set (take i (timers ?tm) @ drop (Suc i) (timers ?tm)) \<subseteq> set (timers ?tm)"
        by (auto dest: in_set_takeD in_set_dropD)
      from inv sub have invr: "tm_inv E ?tmr" by (rule tm_inv_timers_subset)
      have tjr: "map_of (storageManager ?tmr) j = Some tj"
        using tj by simp
      have hc: "handleChanges ?E = handleChanges_model H"
        using assms(1) by simp
      have fe: "\<forall>u e xm. cache (handleFetchError (xml ?E) u e xm) = cache xm"
        using assms(2) by simp
      from monitor_task_step [OF hc fe tjr, of task now] obtain t' where
        ts: "task_step ?tmr ?tm' j (url task) t'" and ut': "url t' = url tj"
        and st': "task_status t' = task_status tj"
        by blast
      have inv': "tm_inv E ?tm'"
        using invr ts j
      proof (rule tm_inv_task_step)
        show "j = extractTaskId E (url t')"
          using invD(2) [OF tj] ut' by simp
        show "task_status t' = ''active''"
          using invD(3) [OF tj] st' by simp
      qed
      have keys': "fst ` set (storageManager ?tm') \<subseteq> extractTaskId E ` set (added_urls evs)"
      proof -
        from tj have "j \<in> fst ` set (storageManager ?tm)"
          by (metis domI dom_map_of_conv_image_fst)
        with task_step_keys [OF ts] keys show ?thesis by auto
      qed
      have ok': "task_ok ?tm' k w" if a: "adds_of E k evs = [w]" and v: "validateTask E w = None"
      proof -
        from ok [OF a v] have okt: "task_ok ?tm k w" .
        then have okr: "task_ok ?tmr k w"
          using sub by (rule task_ok_timers_subset)
        have same: "j = k \<longrightarrow> url task = w"
          using okt mem unfolding task_ok_def by auto
        have invE: "tm_inv ?E ?tmr"
          using invr tm_inv_env [of ?E E ?tmr] by simp
        show ?thesis
          by (rule task_ok_monitor [where E = ?E and tj = tj, OF invE okr _ _ tjr same hc fe])
             (use adds_of_single(1) [OF a] j in simp_all)
      qed
      from inv' keys' ok' show ?thesis
        unfolding step urls adds by blast
    qed
  qed
qed

text \<open>
  Claim C9, as stated, holds for every task added. \<open>addTask\<close> of the source has no test
  for a task that is already monitored: it saves a new object, without snapshot, error
  count or timestamps, under the task's id, while the cache and the polling manager keep
  what they hold. After a task has been added, polled and added again, the cache holds
  the fetched record and the time of the last change is known; after a restart on the
  store of that moment both are gone.
\<close>

theorem readded_task_counterexample:
  "cache (xmlManager (tm_run spec_tm_env added_polled_added_again (TaskManager_new [])))
     ''browse/JIRA-1'' = Some snap_todo
   \<and> cache (xmlManager (restart
        (storageManager (tm_run spec_tm_env added_polled_added_again (TaskManager_new [])))
        11000)) ''browse/JIRA-1'' = None
   \<and> lastUpdateTimes
        (pollingManager (tm_run spec_tm_env added_polled_added_again (TaskManager_new [])))
        ''JIRA-1'' = Some 1000
   \<and> lastUpdateTimes (pollingManager (restart
        (storageManager (tm_run spec_tm_env added_polled_added_again (TaskManager_new [])))
        11000)) ''JIRA-1'' = None"
  by (simp add: tm_run_def added_polled_added_again_def ok_todo_def spec_tm_env_def addTask_def
      startMonitoring_def monitor_def fetchTaskXML_def processXMLData_def detectChanges_def
      handleChanges_model_def sample_xml_env_def sample_parseXML_def TaskManager_new_def
      XMLManager_new_def PollingManager_new_def restart_def initialize_def loadTasks_def
      Object_entries_def array_index_def resumeTask_def Let_def)

text \<open>
  Claim C9, amended. Take any run of a task manager from its construction on an empty
  store, in which tasks are added, cycles run in any order with any answers of the
  network and the process is restarted any number of times, and a task that is added
  exactly once in it: one call of \<open>addTask\<close> has the task's id, and its URL passes
  validation. The task is in the store under its id, with the URL it was added with,
  and its persisted record agrees with the running state: the cached record, the error
  count and the time of the last change. After a restart on that store the task is active
  again with that record, hence the same URL; the cache holds the same record under that
  URL; the error count and the time of the last change are the same; the polling manager
  gives the same interval as before the restart at every clock reading, so the time since
  the last change is counted from the persisted timestamp; and the first cycle is
  scheduled after that interval less the time that has passed since the persisted last
  check. The store, \<open>resumeTask\<close>, \<open>handleChanges\<close> and \<open>handleError\<close> are modelled from
  the specification, and \<open>handleFetchError\<close> is taken to leave the cache alone.
\<close>

theorem resume_round_trip:
  assumes "handleChanges E = handleChanges_model H"
    and "\<forall>u e xm. cache (handleFetchError (xml E) u e xm) = cache xm"
    and "adds_of E taskId evs = [taskUrl]" and "validateTask E taskUrl = None"
    and "tm = tm_run E evs (TaskManager_new [])"
  shows "\<exists>t. map_of (storageManager tm) taskId = Some t
           \<and> url t = taskUrl \<and> taskId = extractTaskId E taskUrl
           \<and> in_sync tm taskId t
           \<and> activeTasks (restart (storageManager tm) now) taskId = Some t
           \<and> cache (xmlManager (restart (storageManager tm) now)) taskUrl
               = cache (xmlManager tm) taskUrl
           \<and> errorCount_or_0 (pollingManager (restart (storageManager tm) now)) taskId
               = errorCount_or_0 (pollingManager tm) taskId
           \<and> lastUpdateTimes (pollingManager (restart (storageManager tm) now)) taskId
               = lastUpdateTimes (pollingManager tm) taskId
           \<and> getTaskInterval (pollingManager (restart (storageManager tm) now)) taskId now'
               = getTaskInterval (pollingManager tm) taskId now'
           \<and> (taskId, t, resume_delay (lastCheck t)
                 (getTaskInterval (pollingManager tm) taskId now) now)
               \<in> set (timers (restart (storageManager tm) now))
           \<and> storageManager (restart (storageManager tm) now) = storageManager tm"
proof -
  let ?store = "storageManager tm"
  let ?tm' = "restart ?store now"
  note run = tm_run_inv [OF assms(1,2), of evs taskId taskUrl]
  from run have inv: "tm_inv E tm"
    unfolding assms(5) by blast
  note invD = tm_invD [OF inv]
  from run assms(3,4) have "task_ok tm taskId taskUrl"
    unfolding assms(5) by blast
  then obtain t where sync: "in_sync tm taskId t" and u: "url t = taskUrl"
    unfolding task_ok_def by blast
  from sync have stored: "map_of ?store taskId = Some t"
    and c: "cache (xmlManager tm) (url t) = snapshot t"
    and e: "errorCount_or_0 (pollingManager tm) taskId = consecutiveErrorCount t"
    and l: "lastUpdateTimes (pollingManager tm) taskId = lastChange t"
    and p: "pollingInterval (pollingManager tm) = 30000"
    by (simp_all add: in_sync_def)
  from invD(3) [OF stored] have a: "task_status t = ''active''" .
  from adds_of_single(1) [OF assms(3)] have id: "taskId = extractTaskId E taskUrl" by simp
  let ?es = "Object_entries ?store"
  from stored have mem: "(taskId, t) \<in> set ?es"
    by (simp add: set_Object_entries map_of_SomeD)
  have dist: "distinct (map fst ?es)"
    using invD(1) by (rule distinct_Object_entries)
  have uniq: "\<forall>(k, v) \<in> set ?es. url v = url t \<longrightarrow> k = taskId"
  proof (intro ballI, clarify)
    fix k v assume "(k, v) \<in> set ?es" and uv: "url v = url t"
    then have "map_of ?store k = Some v"
      using invD(1) by (simp add: set_Object_entries)
    from invD(2) [OF this] invD(2) [OF stored] uv show "k = taskId" by simp
  qed
  have tm': "?tm' = fold (\<lambda>(k, v) tm'. resumeTask tm' k v now) ?es (TaskManager_new ?store)"
    by (simp add: restart_def initialize_def loadTasks_def TaskManager_new_def)
  from fold_resumeTask [OF mem dist uniq a, of now "TaskManager_new ?store"]
  have r: "resumed ?tm' taskId t now"
    unfolding tm' .
  have p': "pollingInterval (pollingManager ?tm') = 30000"
    unfolding tm' by (simp add: fold_resumeTask_interval TaskManager_new_def PollingManager_new_def)
  from r have e': "errorCount_or_0 (pollingManager ?tm') taskId = consecutiveErrorCount t"
    by (simp add: resumed_def errorCount_or_0_def)
  from r have l': "lastUpdateTimes (pollingManager ?tm') taskId = lastChange t"
    by (simp add: resumed_def)
  have g: "getTaskInterval (pollingManager ?tm') taskId n = getTaskInterval (pollingManager tm) taskId n"
    for n
    using p p' e e' l l' by (intro getTaskInterval_cong) simp_all
  have s: "storageManager ?tm' = ?store"
    unfolding tm' by (simp add: fold_resumeTask_storage TaskManager_new_def)
  from r have "(taskId, t, resume_delay (lastCheck t)
                  (getTaskInterval (pollingManager ?tm') taskId now) now) \<in> set (timers ?tm')"
    by (simp add: resumed_def)
  then have ti: "(taskId, t, resume_delay (lastCheck t)
                  (getTaskInterval (pollingManager tm) taskId now) now) \<in> set (timers ?tm')"
    by (simp only: g)
  from r have act: "activeTasks ?tm' taskId = Some t"
    and c': "cache (xmlManager ?tm') (url t) = snapshot t"
    by (simp_all add: resumed_def)
  show ?thesis
    using stored u id sync act c c' e e' l l' g ti s by (intro exI [of _ t]) simp
qed

lemma added_and_polled_store:
  "storageManager (tm_run spec_tm_env added_and_polled (TaskManager_new []))
     = [(''JIRA-1'', polled_task)]"
  by (simp add: tm_run_def added_and_polled_def ok_todo_def spec_tm_env_def addTask_def
      startMonitoring_def monitor_def fetchTaskXML_def processXMLData_def detectChanges_def
      handleChanges_model_def sample_xml_env_def sample_parseXML_def TaskManager_new_def
      XMLManager_new_def polled_task_def Let_def)

lemma added_and_polled_cache:
  "cache (xmlManager (tm_run spec_tm_env added_and_polled (TaskManager_new [])))
     ''browse/JIRA-1'' = Some snap_todo"
  by (simp add: tm_run_def added_and_polled_def ok_todo_def spec_tm_env_def addTask_def
      startMonitoring_def monitor_def fetchTaskXML_def processXMLData_def detectChanges_def
      handleChanges_model_def sample_xml_env_def sample_parseXML_def TaskManager_new_def
      XMLManager_new_def Let_def)

lemma restart_polled:
  "timers (restart [(''JIRA-1'', polled_task)] 11000) = [(''JIRA-1'', polled_task, 20000)]"
  "cache (xmlManager (restart [(''JIRA-1'', polled_task)] 11000)) ''browse/JIRA-1''
     = Some snap_todo"
  "getTaskInterval (pollingManager (restart [(''JIRA-1'', polled_task)] 11000)) ''JIRA-1'' 7201000
     = 300000"
  by (simp_all add: restart_def initialize_def loadTasks_def Object_entries_def array_index_def
      TaskManager_new_def resumeTask_def resume_delay_def polled_task_def PollingManager_new_def
      XMLManager_new_def getTaskInterval_def errorCount_or_0_def falsy_time_def Let_def)

theorem resume_round_trip_witness:
  "handleChanges spec_tm_env = handleChanges_model sample_notif_env
   \<and> adds_of spec_tm_env ''JIRA-1'' added_and_polled = [''browse/JIRA-1'']
   \<and> validateTask spec_tm_env ''browse/JIRA-1'' = None
   \<and> storageManager (tm_run spec_tm_env added_and_polled (TaskManager_new []))
       = [(''JIRA-1'', polled_task)]
   \<and> cache (xmlManager (tm_run spec_tm_env added_and_polled (TaskManager_new [])))
        ''browse/JIRA-1'' = Some snap_todo
   \<and> cache (xmlManager (restart
          (storageManager (tm_run spec_tm_env added_and_polled (TaskManager_new []))) 11000))
        ''browse/JIRA-1'' = Some snap_todo
   \<and> timers (restart
          (storageManager (tm_run spec_tm_env added_and_polled (TaskManager_new []))) 11000)
       = [(''JIRA-1'', polled_task, 20000)]
   \<and> getTaskInterval (pollingManager (restart
          (storageManager (tm_run spec_tm_env added_and_polled (TaskManager_new []))) 11000))
        ''JIRA-1'' 7201000 = 300000
   \<and> getTaskInterval
        (pollingManager (tm_run spec_tm_env added_and_polled (TaskManager_new [])))
        ''JIRA-1'' 7201000 = 300000"
proof -
  have 1: "handleChanges spec_tm_env = handleChanges_model sample_notif_env"
    by (simp add: spec_tm_env_def)
  have 2: "\<forall>u e xm. cache (handleFetchError (xml spec_tm_env) u e xm) = cache xm"
    by (simp add: spec_tm_env_def sample_xml_env_def)
  have 3: "adds_of spec_tm_env ''JIRA-1'' added_and_polled = [''browse/JIRA-1'']"
    by (simp add: adds_of_def added_and_polled_def spec_tm_env_def)
  have 4: "validateTask spec_tm_env ''browse/JIRA-1'' = None"
    by (simp add: spec_tm_env_def)
  from resume_round_trip [OF 1 2 3 4 refl, of 11000 7201000]
  have "getTaskInterval
          (pollingManager (tm_run spec_tm_env added_and_polled (TaskManager_new [])))
          ''JIRA-1'' 7201000 = 300000"
    by (auto simp: added_and_polled_store restart_polled)
  with 1 3 4 show ?thesis
    by (simp add: added_and_polled_store added_and_polled_cache restart_polled)
qed

end
